theory Spec2Isabelle
  imports Complex_Main "HOL-Library.Word"
begin

unbundle bit_operations_syntax

section \<open>Bytes, numbers and errors\<close>

text \<open>
  A \<open>Uint8Array\<close> is a list of 8-bit words; a value read from it is a number between 0
  and 255 (\<open>unat\<close>), a number stored into it is reduced modulo 256 (\<open>of_nat\<close>).
  A JavaScript string without lone surrogates is represented by the characters of its
  UTF-8 encoding (an Isabelle \<open>char\<close> is one byte), so the platform's
  \<open>TextEncoder.encode\<close> only changes the element type. A string with a lone surrogate,
  which \<open>TextEncoder\<close> encodes as U+FFFD, has no representation.
\<close>

type_synonym byte = "8 word"

definition textEncoder_encode :: "string \<Rightarrow> byte list" where
  "textEncoder_encode s = map (\<lambda>c. of_nat (of_char c)) s"

text \<open>
  \<open>new TextDecoder('utf-8')\<close> is not fatal and does not ignore the byte order mark:
  \<open>decode\<close> drops one leading \<open>EF BB BF\<close> and replaces every ill-formed sequence by
  U+FFFD, whose UTF-8 encoding is \<open>EF BF BD\<close>. \<open>utf8_decode\<close> is the decoder of the
  Encoding standard: \<open>seen\<close> holds the bytes of the sequence under way, \<open>needed\<close> the number
  of continuation bytes still expected, \<open>lower\<close> and \<open>upper\<close> the range allowed for the
  next one. A byte that cannot continue a sequence ends it with one U+FFFD and is read
  again as the start of a sequence. A well-formed sequence is the encoding of its code
  point and is passed on as it is.
\<close>

abbreviation (input) "REPLACEMENT_CHARACTER \<equiv> [0xEF, 0xBF, 0xBD :: nat]"

function utf8_decode :: "nat list \<Rightarrow> nat list \<Rightarrow> nat \<Rightarrow> nat \<Rightarrow> nat \<Rightarrow> nat list" where
  "utf8_decode [] seen needed lower upper = (if needed \<noteq> 0 then REPLACEMENT_CHARACTER else [])"
| "utf8_decode (b # bs) seen needed lower upper =
     (if needed = 0 then
        (if b \<le> 0x7F then b # utf8_decode bs [] 0 0x80 0xBF
         else if 0xC2 \<le> b \<and> b \<le> 0xDF then utf8_decode bs [b] 1 0x80 0xBF
         else if 0xE0 \<le> b \<and> b \<le> 0xEF then
           utf8_decode bs [b] 2 (if b = 0xE0 then 0xA0 else 0x80) (if b = 0xED then 0x9F else 0xBF)
         else if 0xF0 \<le> b \<and> b \<le> 0xF4 then
           utf8_decode bs [b] 3 (if b = 0xF0 then 0x90 else 0x80) (if b = 0xF4 then 0x8F else 0xBF)
         else REPLACEMENT_CHARACTER @ utf8_decode bs [] 0 0x80 0xBF)
      else if b < lower \<or> upper < b then
        REPLACEMENT_CHARACTER @ utf8_decode (b # bs) [] 0 0x80 0xBF
      else if needed = 1 then seen @ [b] @ utf8_decode bs [] 0 0x80 0xBF
      else utf8_decode bs (seen @ [b]) (needed - 1) 0x80 0xBF)"
  by pat_completeness auto
termination
  by (relation "measure (\<lambda>(bs, seen, needed, lower, upper).
        2 * length bs + (if needed = 0 then 0 else 1))")
     auto

definition textDecoder_decode :: "byte list \<Rightarrow> string" where
  "textDecoder_decode bs =
     (let bytes = map unat bs;
          bytes' = (if take 3 bytes = [0xEF, 0xBB, 0xBF] then drop 3 bytes else bytes)
      in map char_of (utf8_decode bytes' [] 0 0x80 0xBF))"

text \<open>
  \<open>String.prototype.length\<close> counts UTF-16 code units: one per code point, two for a code
  point outside the basic plane. Read off the UTF-8 bytes, that is one unit per byte that
  is not a continuation byte (\<open>10xxxxxx\<close>) plus one more per four-byte lead (\<open>11110xxx\<close>).
\<close>

definition js_length :: "string \<Rightarrow> nat" where
  "js_length s =
     length (filter (\<lambda>c. (of_char c :: nat) div 64 \<noteq> 2) s)
     + length (filter (\<lambda>c. 240 \<le> (of_char c :: nat)) s)"

text \<open>
  Every exception of the two codecs is a value. The first group belongs to the
  fixed-width scheme (\<open>RangeError\<close>, \<open>SyntaxError\<close> and \<open>TypeError\<close> with the message of
  the source), the second to the simplified scheme.
\<close>

datatype error =
    BufferUnderflow                \<comment> \<open>RangeError: Buffer underflow: cannot read ...\<close>
  | InvalidMagicNumber             \<comment> \<open>SyntaxError: Invalid BOON magic number\<close>
  | InvalidHeader                  \<comment> \<open>SyntaxError: Invalid BOON header\<close>
  | UnsupportedVersion nat         \<comment> \<open>SyntaxError: Unsupported BOON version\<close>
  | InvalidTag nat                 \<comment> \<open>SyntaxError: Invalid string/array/object tag\<close>
  | UnknownTypeTag nat             \<comment> \<open>SyntaxError: Unknown type tag\<close>
  | InvalidKeyIndex int            \<comment> \<open>SyntaxError: Invalid key index\<close>
  | InvalidCommonKeyIndex nat      \<comment> \<open>SyntaxError: Invalid common key index\<close>
  | UnsupportedValueType           \<comment> \<open>TypeError: Unsupported value type\<close>
  | NegativeLength                 \<comment> \<open>no exception of the source: \<open>readBytes\<close> was given a
                                      negative count, where the model stops\<close>
  | OutOfFuel                      \<comment> \<open>the recursion bound of the model was reached\<close>
  | TruncatedDataError
  | VarintTooLong                  \<comment> \<open>Error: Varint too long\<close>
  | VarintNegative                 \<comment> \<open>Error: Varint cannot encode negative numbers\<close>

text \<open>
  A JavaScript number is a double. The codec only asks whether it is integer-valued
  (\<open>Number.isInteger\<close>) and, if not, whether \<open>Math.fround\<close> preserves it; the three
  constructors are these three cases. A number that is not integer-valued is kept as
  its IEEE-754 bit pattern: the binary32 bits if \<open>Math.fround\<close> preserves it, the binary64
  bits otherwise. An integer-valued number is a double as well, so an \<open>int\<close> of a magnitude
  above \<open>2^53\<close> is a number only if it is the value of a double.
\<close>

datatype jnumber =
    NInt int               \<comment> \<open>an integer-valued number\<close>
  | NFloat32 "32 word"     \<comment> \<open>not integer-valued, equal to its \<open>Math.fround\<close>: the binary32 bits\<close>
  | NFloat64 "64 word"     \<comment> \<open>any other number: the binary64 bits\<close>

text \<open>
  \<open>Number(bigInt)\<close>, and every arithmetic operation on numbers, returns the double nearest
  to the exact result, a tie going to the double with the even significand. For an
  integer of a magnitude up to \<open>2^53\<close> that is the integer itself; a larger one keeps its
  leading 53 bits, rounded. (The magnitudes here stay below \<open>2^71\<close>, far from the largest
  double.)
\<close>

function bitLength :: "nat \<Rightarrow> nat" where
  "bitLength n = (if n = 0 then 0 else Suc (bitLength (n div 2)))"
  by pat_completeness auto
termination
  by (relation "measure id") auto

declare bitLength.simps [simp del]

definition nearestDouble :: "nat \<Rightarrow> nat" where
  "nearestDouble a =
     (if a \<le> 2 ^ 53 then a
      else
        (let e = bitLength a - 53;
             q = a div 2 ^ e;
             r = a mod 2 ^ e;
             q' = (if 2 * r > 2 ^ e \<or> (2 * r = 2 ^ e \<and> q mod 2 = 1) then q + 1 else q)
         in q' * 2 ^ e))"

definition toNumber :: "int \<Rightarrow> int" where
  "toNumber v =
     (if v \<ge> 0 then int (nearestDouble (nat v)) else - int (nearestDouble (nat (- v))))"

text \<open>
  The number that \<open>getFloat32\<close> and \<open>getFloat64\<close> return for the bits they read, as the
  \<open>jnumber\<close> that stands for it. A bit pattern is a NaN, an infinity, or the finite value
  \<open>c \<times> 2^k\<close>, with a sign, of its fields (\<open>ebits\<close> exponent bits, \<open>fbits\<close> fraction bits).
  \<open>oddPart\<close> makes \<open>c\<close> odd. The value is an integer when \<open>k\<close> is then not negative; it is
  a binary32 when \<open>c\<close> has at most 24 bits and \<open>k\<close> is at least \<open>-149\<close>. A NaN is not equal
  to its \<open>Math.fround\<close> and therefore an \<open>NFloat64\<close>; its bits are those of the one NaN that
  \<open>setFloat64\<close> usually writes. The two zeros are the one \<open>NInt 0\<close>: \<open>writeNumber\<close> writes the
  same byte for both.
\<close>

datatype ieee = IeeeNaN | IeeeInfinity bool | IeeeFinite bool nat int

definition ieee_decode :: "nat \<Rightarrow> nat \<Rightarrow> nat \<Rightarrow> ieee" where
  "ieee_decode ebits fbits w =
     (let negative = ((w div 2 ^ (ebits + fbits)) mod 2 = 1);
          e = (w div 2 ^ fbits) mod 2 ^ ebits;
          f = w mod 2 ^ fbits;
          bias = 2 ^ (ebits - 1) - 1
      in if e = 2 ^ ebits - 1 then (if f = 0 then IeeeInfinity negative else IeeeNaN)
         else if e = 0 then IeeeFinite negative f (1 - int bias - int fbits)
         else IeeeFinite negative (2 ^ fbits + f) (int e - int bias - int fbits))"

function oddPart :: "nat \<Rightarrow> int \<Rightarrow> nat \<times> int" where
  "oddPart c k = (if c = 0 \<or> c mod 2 = 1 then (c, k) else oddPart (c div 2) (k + 1))"
  by pat_completeness auto
termination
  by (relation "measure fst") auto

declare oddPart.simps [simp del]

text \<open>
  The bits of the finite value \<open>c \<times> 2^k\<close>, for an odd \<open>c\<close> that fits the format: a normal
  number when the exponent of its leading bit is at least \<open>1 - bias\<close>, a subnormal one
  below.
\<close>

definition ieee_encode :: "nat \<Rightarrow> nat \<Rightarrow> bool \<Rightarrow> nat \<Rightarrow> int \<Rightarrow> nat" where
  "ieee_encode ebits fbits negative c k =
     (let bias = 2 ^ (ebits - 1) - 1;
          sign = (if negative then 2 ^ (ebits + fbits) else 0);
          e = int (bitLength c) - 1 + k
      in if e \<ge> 1 - int bias
         then sign + nat (e + int bias) * 2 ^ fbits
                + nat (int c * 2 ^ nat (int fbits + 1 - int (bitLength c)) - 2 ^ fbits)
         else sign + c * 2 ^ nat (k + int bias - 1 + int fbits))"

definition number_of_ieee :: "ieee \<Rightarrow> jnumber" where
  "number_of_ieee x =
     (case x of
        IeeeNaN \<Rightarrow> NFloat64 0x7FF8000000000000
      | IeeeInfinity negative \<Rightarrow> NFloat32 (if negative then 0xFF800000 else 0x7F800000)
      | IeeeFinite negative c k \<Rightarrow>
          (case oddPart c k of (c', k') \<Rightarrow>
             if c' = 0 then NInt 0
             else if k' \<ge> 0 then NInt ((if negative then - 1 else 1) * int c' * 2 ^ nat k')
             else if bitLength c' \<le> 24 \<and> - 149 \<le> k'
             then NFloat32 (of_nat (ieee_encode 8 23 negative c' k'))
             else NFloat64 (of_nat (ieee_encode 11 52 negative c' k'))))"

definition number_of_float32 :: "32 word \<Rightarrow> jnumber" where
  "number_of_float32 w = number_of_ieee (ieee_decode 8 23 (unat w))"

definition number_of_float64 :: "64 word \<Rightarrow> jnumber" where
  "number_of_float64 w = number_of_ieee (ieee_decode 11 52 (unat w))"

text \<open>
  Run-time values. An array element is \<open>None\<close> for an empty slot (a hole of a sparse
  array). An object is the list of its own enumerable properties in \<open>Object.keys\<close> order;
  the keys of such a list are distinct. \<open>JBigInt\<close>, \<open>JSymbol\<close> and \<open>JFunction\<close> carry what
  \<open>String(input)\<close> returns for them.
\<close>

datatype jsval =
    JUndefined
  | JNull
  | JBool bool
  | JNumber jnumber
  | JString string
  | JBigInt string
  | JSymbol string
  | JFunction string
  | JArray "jsval option list"
  | JObject "(string \<times> jsval) list"

text \<open>Reading an array slot (indexing or \<open>for ... of\<close>) gives \<open>undefined\<close> for a hole.\<close>

fun array_item :: "jsval option \<Rightarrow> jsval" where
  "array_item None = JUndefined"
| "array_item (Some v) = v"

text \<open>
  The own keys of an object come in this order: the array indices (the decimal numerals
  of the integers from 0 to \<open>2^32 - 2\<close>, without a leading zero) in ascending order, then
  the other keys in the order of their creation.
\<close>

definition digits_value :: "string \<Rightarrow> nat" where
  "digits_value s = foldl (\<lambda>n c. 10 * n + (of_char c - 48)) 0 s"

definition arrayIndex :: "string \<Rightarrow> nat option" where
  "arrayIndex s =
     (if 0 < length s \<and> list_all (\<lambda>c. 48 \<le> (of_char c :: nat) \<and> (of_char c :: nat) \<le> 57) s
         \<and> (length s = 1 \<or> 48 < (of_char (hd s) :: nat))
         \<and> digits_value s < 2 ^ 32 - 1
      then Some (digits_value s) else None)"

definition ownKey_before :: "string \<Rightarrow> string \<Rightarrow> bool" where
  "ownKey_before k k' =
     (case arrayIndex k of
        None \<Rightarrow> False
      | Some n \<Rightarrow> (case arrayIndex k' of None \<Rightarrow> True | Some n' \<Rightarrow> n < n'))"

text \<open>
  \<open>result[key] = value\<close> on an object created by \<open>{}\<close>: an existing property keeps its
  place and gets the value, a new one is created at its place in the order of the keys.
  The key \<open>__proto__\<close> is the accessor inherited from \<open>Object.prototype\<close>: the assignment
  calls its setter and creates no property. (The setter gives the object another
  prototype when the value is null or an object. That is not part of a \<open>jsval\<close>; and an
  object that has lost \<open>Object.prototype\<close> in this way would get a property by a second
  assignment to \<open>__proto__\<close>, which only a decoder reading the key twice can make and the
  model does not follow.)
\<close>

fun property_set :: "(string \<times> jsval) list \<Rightarrow> string \<Rightarrow> jsval \<Rightarrow> (string \<times> jsval) list" where
  "property_set [] k v = [(k, v)]"
| "property_set ((k', v') # ps) k v =
     (if k' = k then (k, v) # ps
      else if ownKey_before k k' then (k, v) # (k', v') # ps
      else (k', v') # property_set ps k v)"

definition object_set :: "(string \<times> jsval) list \<Rightarrow> string \<Rightarrow> jsval \<Rightarrow> (string \<times> jsval) list" where
  "object_set result k v = (if k = ''__proto__'' then result else property_set result k v)"

section \<open>Constants\<close>

abbreviation (input) "TYPE_TAG_NULL \<equiv> (0x00 :: nat)"
abbreviation (input) "TYPE_TAG_FALSE \<equiv> (0x01 :: nat)"
abbreviation (input) "TYPE_TAG_TRUE \<equiv> (0x02 :: nat)"
abbreviation (input) "TYPE_TAG_INT8 \<equiv> (0x10 :: nat)"
abbreviation (input) "TYPE_TAG_INT16 \<equiv> (0x11 :: nat)"
abbreviation (input) "TYPE_TAG_INT32 \<equiv> (0x12 :: nat)"
abbreviation (input) "TYPE_TAG_INT64 \<equiv> (0x13 :: nat)"
abbreviation (input) "TYPE_TAG_UINT8 \<equiv> (0x14 :: nat)"
abbreviation (input) "TYPE_TAG_UINT16 \<equiv> (0x15 :: nat)"
abbreviation (input) "TYPE_TAG_UINT32 \<equiv> (0x16 :: nat)"
abbreviation (input) "TYPE_TAG_FLOAT32 \<equiv> (0x20 :: nat)"
abbreviation (input) "TYPE_TAG_FLOAT64 \<equiv> (0x21 :: nat)"
abbreviation (input) "TYPE_TAG_STRING_EMPTY \<equiv> (0x30 :: nat)"
abbreviation (input) "TYPE_TAG_STRING_SHORT \<equiv> (0x31 :: nat)"
abbreviation (input) "TYPE_TAG_STRING_MEDIUM \<equiv> (0x32 :: nat)"
abbreviation (input) "TYPE_TAG_STRING_LONG \<equiv> (0x33 :: nat)"
abbreviation (input) "TYPE_TAG_ARRAY_EMPTY \<equiv> (0x40 :: nat)"
abbreviation (input) "TYPE_TAG_ARRAY_SHORT \<equiv> (0x41 :: nat)"
abbreviation (input) "TYPE_TAG_ARRAY_MEDIUM \<equiv> (0x42 :: nat)"
abbreviation (input) "TYPE_TAG_ARRAY_LONG \<equiv> (0x43 :: nat)"
abbreviation (input) "TYPE_TAG_OBJECT_EMPTY \<equiv> (0x50 :: nat)"
abbreviation (input) "TYPE_TAG_OBJECT_SHORT \<equiv> (0x51 :: nat)"
abbreviation (input) "TYPE_TAG_OBJECT_MEDIUM \<equiv> (0x52 :: nat)"
abbreviation (input) "TYPE_TAG_OBJECT_LONG \<equiv> (0x53 :: nat)"
abbreviation (input) "TYPE_TAG_HEADER_WITH_STRING_TABLE \<equiv> (0x60 :: nat)"

abbreviation (input) "MAGIC_NUMBER \<equiv> [0x42, 0x4F, 0x4F, 0x4E :: nat]"
abbreviation (input) "FORMAT_VERSION \<equiv> (1 :: nat)"

abbreviation (input) "MAX_SHORT_LENGTH \<equiv> (255 :: nat)"
abbreviation (input) "MAX_MEDIUM_LENGTH \<equiv> (65535 :: nat)"
abbreviation (input) "INT8_MIN \<equiv> (-128 :: int)"
abbreviation (input) "INT8_MAX \<equiv> (127 :: int)"
abbreviation (input) "INT16_MIN \<equiv> (-32768 :: int)"
abbreviation (input) "INT16_MAX \<equiv> (32767 :: int)"
abbreviation (input) "INT32_MIN \<equiv> (-2147483648 :: int)"
abbreviation (input) "INT32_MAX \<equiv> (2147483647 :: int)"
abbreviation (input) "UINT8_MAX \<equiv> (255 :: int)"
abbreviation (input) "UINT16_MAX \<equiv> (65535 :: int)"
abbreviation (input) "UINT32_MAX \<equiv> (4294967295 :: int)"

abbreviation (input) "COMMON_KEY_MIN \<equiv> (0x80 :: nat)"
abbreviation (input) "COMMON_KEY_MAX \<equiv> (0xFF :: nat)"

definition COMMON_KEYS :: "string list" where
  "COMMON_KEYS = [
    ''id'', ''name'', ''type'', ''value'', ''data'', ''key'', ''label'', ''text'',
    ''title'', ''description'', ''status'', ''code'', ''message'', ''error'', ''result'',
    ''success'', ''user'', ''email'', ''password'', ''token'', ''created'', ''updated'',
    ''deleted'', ''timestamp'', ''date'', ''time'', ''url'', ''link'', ''href'', ''src'',
    ''image'', ''icon'', ''count'', ''total'', ''size'', ''length'', ''width'', ''height'',
    ''index'', ''position'', ''order'', ''level'', ''priority'', ''score'', ''rating'',
    ''price'', ''amount'', ''quantity'', ''active'', ''enabled'', ''disabled'',
    ''visible'', ''hidden'', ''public'', ''private'', ''admin'', ''owner'', ''author'',
    ''creator'', ''modifier'', ''parent'', ''child'', ''children'', ''items'', ''config'',
    ''options'', ''settings'', ''params'', ''metadata'', ''attributes'', ''properties'',
    ''fields'', ''columns'', ''rows'', ''records'', ''entries'', ''tags'', ''categories'',
    ''groups'', ''filter'', ''action'', ''method'', ''event'', ''callback'', ''handler'',
    ''response'', ''request'', ''query'', ''search'', ''sort'', ''limit'', ''offset'',
    ''page'', ''per_page'', ''next'', ''prev'', ''content'', ''body'', ''header'',
    ''footer'', ''sidebar'', ''menu'', ''nav'', ''section'', ''article'', ''post'',
    ''comment'', ''reply'', ''file'', ''folder'', ''directory'', ''path'', ''info'',
    ''details'', ''summary'', ''version'', ''format'', ''encoding'', ''language'',
    ''locale'', ''timezone'', ''currency'', ''unit'', ''state'', ''mode'', ''theme'',
    ''style'', ''class''
  ]"

text \<open>
  \<open>COMMON_KEYS_MAP\<close> is built by inserting \<open>[key, 0x80 + index]\<close> in list order, so a
  later entry would replace an earlier one with the same key.
\<close>

definition COMMON_KEYS_MAP_get :: "string \<Rightarrow> nat option" where
  "COMMON_KEYS_MAP_get k =
     map_of (rev (zip COMMON_KEYS (map (\<lambda>index. 0x80 + index) [0 ..< length COMMON_KEYS]))) k"

section \<open>Varint and zigzag codec of the simplified scheme\<close>

text \<open>
  \<open>encodeVarint\<close>: a do-while loop over a \<open>BigInt\<close>, least significant group first; each
  byte is pushed onto the output array.
\<close>

function encodeVarint_loop :: "nat \<Rightarrow> byte list \<Rightarrow> byte list" where
  "encodeVarint_loop n out =
     (let byte = n AND 0x7F;
          n' = drop_bit 7 n;
          byte' = (if n' \<noteq> 0 then byte OR 0x80 else byte);
          out' = out @ [of_nat byte']
      in if n' \<noteq> 0 then encodeVarint_loop n' out' else out')"
  by pat_completeness auto
termination
  by (relation "measure fst") (auto simp: drop_bit_eq_div)

declare encodeVarint_loop.simps [simp del]

definition encodeVarint :: "int \<Rightarrow> byte list \<Rightarrow> error + byte list" where
  "encodeVarint v out =
     (if v < 0 then Inl VarintNegative else Inr (encodeVarint_loop (nat v) out))"

text \<open>
  \<open>value >= 0 ? value * 2 : -value * 2 - 1\<close> on numbers: each product and the difference is
  rounded to a double, which changes the result for a magnitude above \<open>2^52\<close>.
\<close>

definition zigzag :: "int \<Rightarrow> int" where
  "zigzag v = (if v \<ge> 0 then toNumber (v * 2) else toNumber (toNumber (- v * 2) - 1))"

definition encodeZigzagVarint :: "int \<Rightarrow> byte list \<Rightarrow> error + byte list" where
  "encodeZigzagVarint v out = encodeVarint (zigzag v) out"

text \<open>
  \<open>readVarint\<close> of the simplified scheme: a \<open>BigInt\<close> accumulator, one byte per iteration
  while \<open>pos < data.length\<close>; the shift is tested after it has been advanced. The result
  is returned as \<open>Number(result)\<close>.
\<close>

function readVarint2_loop :: "byte list \<Rightarrow> nat \<Rightarrow> nat \<Rightarrow> nat \<Rightarrow> error + (nat \<times> nat)" where
  "readVarint2_loop data pos result shift =
     (if pos < length data then
        (let byte = unat (data ! pos);
             pos' = pos + 1;
             result' = result OR push_bit shift (byte AND 0x7F)
         in if byte AND 0x80 = 0 then Inr (nearestDouble result', pos')
            else (let shift' = shift + 7
                  in if shift' > 63 then Inl VarintTooLong
                     else readVarint2_loop data pos' result' shift'))
      else Inl TruncatedDataError)"
  by pat_completeness auto
termination
  by (relation "measure (\<lambda>(data, pos, result, shift). length data - pos)") auto

declare readVarint2_loop.simps [simp del]

definition readVarint2 :: "byte list \<Rightarrow> nat \<Rightarrow> error + (nat \<times> nat)" where
  "readVarint2 data pos = readVarint2_loop data pos 0 0"

text \<open>
  \<open>readZigzag\<close>: \<open>half = Math.floor(n / 2)\<close>, and the parity test \<open>n & 1\<close> reads the lowest
  bit of \<open>n\<close>.
\<close>

definition unzigzag :: "nat \<Rightarrow> int" where
  "unzigzag n = (let half = int (n div 2) in if n AND 1 = 0 then half else - (half + 1))"

definition readZigzag :: "byte list \<Rightarrow> nat \<Rightarrow> error + (int \<times> nat)" where
  "readZigzag data pos =
     (case readVarint2 data pos of
        Inl e \<Rightarrow> Inl e
      | Inr (n, pos') \<Rightarrow> Inr (unzigzag n, pos'))"

section \<open>The binary reader\<close>

record reader =
  buffer :: "byte list"
  offset :: nat

definition createBinaryReader :: "byte list \<Rightarrow> reader" where
  "createBinaryReader data = \<lparr>buffer = data, offset = 0\<rparr>"

text \<open>
  \<open>DataView\<close> accessors, big-endian: the unsigned value of a run of bytes, its reading as
  a two's-complement number of that many bits, and the bytes that a setter of 16, 32 or
  64 bits stores for a number (the number reduced modulo \<open>2^16\<close>, \<open>2^32\<close>, \<open>2^64\<close>).
\<close>

definition be_value :: "byte list \<Rightarrow> nat" where
  "be_value bs = foldl (\<lambda>acc b. acc * 256 + unat b) 0 bs"

definition to_signed :: "nat \<Rightarrow> nat \<Rightarrow> int" where
  "to_signed bits v = (if v \<ge> 2 ^ (bits - 1) then int v - 2 ^ bits else int v)"

definition bytes16 :: "int \<Rightarrow> byte list" where
  "bytes16 v = [of_int (v div 2 ^ 8), of_int v]"

definition bytes32 :: "int \<Rightarrow> byte list" where
  "bytes32 v = [of_int (v div 2 ^ 24), of_int (v div 2 ^ 16), of_int (v div 2 ^ 8), of_int v]"

definition bytes64 :: "int \<Rightarrow> byte list" where
  "bytes64 v =
     [of_int (v div 2 ^ 56), of_int (v div 2 ^ 48), of_int (v div 2 ^ 40), of_int (v div 2 ^ 32),
      of_int (v div 2 ^ 24), of_int (v div 2 ^ 16), of_int (v div 2 ^ 8), of_int v]"

definition view_bytes :: "reader \<Rightarrow> nat \<Rightarrow> byte list" where
  "view_bytes r n = take n (drop (offset r) (buffer r))"

definition readUint8 :: "reader \<Rightarrow> error + (nat \<times> reader)" where
  "readUint8 r =
     (if offset r \<ge> length (buffer r) then Inl BufferUnderflow
      else Inr (unat (buffer r ! offset r), r\<lparr>offset := offset r + 1\<rparr>))"

definition readInt8 :: "reader \<Rightarrow> error + (int \<times> reader)" where
  "readInt8 r =
     (if offset r \<ge> length (buffer r) then Inl BufferUnderflow
      else Inr (to_signed 8 (be_value (view_bytes r 1)), r\<lparr>offset := offset r + 1\<rparr>))"

definition readUint16 :: "reader \<Rightarrow> error + (nat \<times> reader)" where
  "readUint16 r =
     (if offset r + 2 > length (buffer r) then Inl BufferUnderflow
      else Inr (be_value (view_bytes r 2), r\<lparr>offset := offset r + 2\<rparr>))"

definition readInt16 :: "reader \<Rightarrow> error + (int \<times> reader)" where
  "readInt16 r =
     (if offset r + 2 > length (buffer r) then Inl BufferUnderflow
      else Inr (to_signed 16 (be_value (view_bytes r 2)), r\<lparr>offset := offset r + 2\<rparr>))"

definition readUint32 :: "reader \<Rightarrow> error + (nat \<times> reader)" where
  "readUint32 r =
     (if offset r + 4 > length (buffer r) then Inl BufferUnderflow
      else Inr (be_value (view_bytes r 4), r\<lparr>offset := offset r + 4\<rparr>))"

definition readInt32 :: "reader \<Rightarrow> error + (int \<times> reader)" where
  "readInt32 r =
     (if offset r + 4 > length (buffer r) then Inl BufferUnderflow
      else Inr (to_signed 32 (be_value (view_bytes r 4)), r\<lparr>offset := offset r + 4\<rparr>))"

definition readFloat32 :: "reader \<Rightarrow> error + (32 word \<times> reader)" where
  "readFloat32 r =
     (if offset r + 4 > length (buffer r) then Inl BufferUnderflow
      else Inr (of_nat (be_value (view_bytes r 4)), r\<lparr>offset := offset r + 4\<rparr>))"

definition readFloat64 :: "reader \<Rightarrow> error + (64 word \<times> reader)" where
  "readFloat64 r =
     (if offset r + 8 > length (buffer r) then Inl BufferUnderflow
      else Inr (of_nat (be_value (view_bytes r 8)), r\<lparr>offset := offset r + 8\<rparr>))"

text \<open>
  \<open>readBytes\<close> receives its length from a length field or from the 32-bit varint reader,
  which can return a negative number. The source has no test for that: it takes
  \<open>buffer.slice(offset, offset + length)\<close> and moves the cursor back by \<open>offset += length\<close>.
  The model stops there with \<open>NegativeLength\<close> and says nothing on what the decoder does
  after it.
\<close>

definition readBytes :: "reader \<Rightarrow> int \<Rightarrow> error + (byte list \<times> reader)" where
  "readBytes r len =
     (if int (offset r) + len > int (length (buffer r)) then Inl BufferUnderflow
      else if len < 0 then Inl NegativeLength
      else Inr (view_bytes r (nat len), r\<lparr>offset := offset r + nat len\<rparr>))"

definition readBigInt64 :: "reader \<Rightarrow> error + (int \<times> reader)" where
  "readBigInt64 r =
     (if offset r + 8 > length (buffer r) then Inl BufferUnderflow
      else Inr (to_signed 64 (be_value (view_bytes r 8)), r\<lparr>offset := offset r + 8\<rparr>))"

section \<open>Varints of the fixed-width scheme\<close>

text \<open>
  \<open>writeVarint\<close> (key indices, key counts and key lengths of the string table). The
  operators \<open>&\<close> and \<open>>>>\<close> work on the low 32 bits of their operand; a store into the
  buffer keeps the low 8 bits.
\<close>

definition writeVarint :: "byte list \<Rightarrow> nat \<Rightarrow> byte list" where
  "writeVarint buf v =
     (let u = v mod 2 ^ 32 in
      if v < 128 then buf @ [of_nat v]
      else if v < 16384 then
        buf @ [of_nat ((u AND 0x7F) OR 0x80), of_nat (drop_bit 7 u)]
      else if v < 2097152 then
        buf @ [of_nat ((u AND 0x7F) OR 0x80), of_nat ((drop_bit 7 u AND 0x7F) OR 0x80),
               of_nat (drop_bit 14 u)]
      else
        buf @ [of_nat ((u AND 0x7F) OR 0x80), of_nat ((drop_bit 7 u AND 0x7F) OR 0x80),
               of_nat ((drop_bit 14 u AND 0x7F) OR 0x80), of_nat (drop_bit 21 u)])"

text \<open>
  \<open>readVarint\<close> of the eager and of the streaming decoder (the same text in both):
  \<open>result |= (byte & 0x7F) << shift\<close> is 32-bit arithmetic. The accumulator is an
  \<open>Int32\<close>, the shift count is taken modulo 32, and the result is read as a signed number.
\<close>

function readVarint_loop :: "reader \<Rightarrow> 32 word \<Rightarrow> nat \<Rightarrow> error + (int \<times> reader)" where
  "readVarint_loop r result shift =
     (case readUint8 r of
        Inl e \<Rightarrow> Inl e
      | Inr (byte, r') \<Rightarrow>
          (let result' = result OR push_bit (shift mod 32) (of_nat (byte AND 0x7F));
               shift' = shift + 7
           in if byte AND 0x80 \<noteq> 0 then readVarint_loop r' result' shift'
              else Inr (sint result', r')))"
  by pat_completeness auto
termination
  by (relation "measure (\<lambda>(r, result, shift). length (buffer r) - offset r)")
     (auto simp: readUint8_def split: if_splits)

declare readVarint_loop.simps [simp del]

definition readVarint :: "reader \<Rightarrow> error + (int \<times> reader)" where
  "readVarint r = readVarint_loop r 0 0"

section \<open>The encoder of the fixed-width scheme\<close>

record ResolvedEncodeOptions =
  includeHeader :: bool
  initialBufferSize :: nat
  useStringTable :: bool

record EncodeOptions =
  includeHeader_opt :: "bool option"
  initialBufferSize_opt :: "nat option"
  useStringTable_opt :: "bool option"

text \<open>
  A \<open>GrowableBuffer\<close> is represented by the bytes written so far, \<open>buffer[0 .. offset)\<close>,
  which is what \<open>getResult\<close> returns. \<open>ensureCapacity\<close> and \<open>grow\<close> only enlarge the
  backing array and keep these bytes, so they do not appear. The \<open>options\<close> argument that
  the writers hand on to each other is never read by them and is left out.
\<close>

definition writeTag :: "byte list \<Rightarrow> nat \<Rightarrow> byte list" where
  "writeTag buf tag = buf @ [of_nat tag]"

definition writeHeader :: "byte list \<Rightarrow> byte list" where
  "writeHeader buf = buf @ map of_nat MAGIC_NUMBER @ [of_nat FORMAT_VERSION]"

definition writeNull :: "byte list \<Rightarrow> byte list" where
  "writeNull buf = writeTag buf TYPE_TAG_NULL"

definition writeBoolean :: "byte list \<Rightarrow> bool \<Rightarrow> byte list" where
  "writeBoolean buf v = writeTag buf (if v then TYPE_TAG_TRUE else TYPE_TAG_FALSE)"

fun writeNumber :: "byte list \<Rightarrow> jnumber \<Rightarrow> byte list" where
  "writeNumber buf (NInt v) =
     (if v \<ge> INT8_MIN \<and> v \<le> INT8_MAX then writeTag buf TYPE_TAG_INT8 @ [of_int v]
      else if v \<ge> INT16_MIN \<and> v \<le> INT16_MAX then writeTag buf TYPE_TAG_INT16 @ bytes16 v
      else if v \<ge> INT32_MIN \<and> v \<le> INT32_MAX then writeTag buf TYPE_TAG_INT32 @ bytes32 v
      else if v \<ge> 0 \<and> v \<le> UINT8_MAX then writeTag buf TYPE_TAG_UINT8 @ [of_int v]
      else if v \<ge> 0 \<and> v \<le> UINT16_MAX then writeTag buf TYPE_TAG_UINT16 @ bytes16 v
      else if v \<ge> 0 \<and> v \<le> UINT32_MAX then writeTag buf TYPE_TAG_UINT32 @ bytes32 v
      else writeTag buf TYPE_TAG_INT64 @ bytes64 v)"
| "writeNumber buf (NFloat32 w) = writeTag buf TYPE_TAG_FLOAT32 @ bytes32 (uint w)"
| "writeNumber buf (NFloat64 w) = writeTag buf TYPE_TAG_FLOAT64 @ bytes64 (uint w)"

definition writeString :: "byte list \<Rightarrow> string \<Rightarrow> byte list" where
  "writeString buf v =
     (if js_length v = 0 then writeTag buf TYPE_TAG_STRING_EMPTY
      else
        (let bytes = textEncoder_encode v; len = length bytes in
         if len \<le> MAX_SHORT_LENGTH then writeTag buf TYPE_TAG_STRING_SHORT @ [of_nat len] @ bytes
         else if len \<le> MAX_MEDIUM_LENGTH then
           writeTag buf TYPE_TAG_STRING_MEDIUM @ bytes16 (int len) @ bytes
         else writeTag buf TYPE_TAG_STRING_LONG @ bytes32 (int len) @ bytes))"

definition writeKeyString :: "byte list \<Rightarrow> string \<Rightarrow> byte list" where
  "writeKeyString buf v =
     (case COMMON_KEYS_MAP_get v of
        Some commonKeyId \<Rightarrow> buf @ [of_nat commonKeyId]
      | None \<Rightarrow>
          (let bytes = textEncoder_encode v; len = length bytes in
           if len \<le> 127 then buf @ [of_nat len] @ bytes
           else if len \<le> MAX_MEDIUM_LENGTH then buf @ [254] @ bytes16 (int len) @ bytes
           else buf @ [255] @ bytes32 (int len) @ bytes))"

text \<open>
  The element or key count of a non-empty container: the tag of the narrowest length
  field and the field. \<open>writeArray\<close>, \<open>writeObject\<close> and \<open>writeObjectWithKeyMap\<close> each
  contain this text with their own three tags.
\<close>

definition writeCount :: "byte list \<Rightarrow> nat \<Rightarrow> nat \<Rightarrow> nat \<Rightarrow> nat \<Rightarrow> byte list" where
  "writeCount buf tagShort tagMedium tagLong n =
     (if n \<le> MAX_SHORT_LENGTH then writeTag buf tagShort @ [of_nat n]
      else if n \<le> MAX_MEDIUM_LENGTH then writeTag buf tagMedium @ bytes16 (int n)
      else writeTag buf tagLong @ bytes32 (int n))"

text \<open>
  A key that the key map does not hold makes \<open>keyMap.get(key)\<close> \<open>undefined\<close>; every
  comparison of \<open>writeVarint\<close> is then false and its last branch stores
  \<open>0x80, 0x80, 0x80, 0x00\<close>.
\<close>

definition writeKeyIndex :: "byte list \<Rightarrow> nat option \<Rightarrow> byte list" where
  "writeKeyIndex buf keyIndex =
     (case keyIndex of Some i \<Rightarrow> writeVarint buf i | None \<Rightarrow> buf @ [0x80, 0x80, 0x80, 0x00])"

function (sequential) writeValue :: "byte list \<Rightarrow> jsval \<Rightarrow> error + byte list"
  and writeArray :: "byte list \<Rightarrow> jsval option list \<Rightarrow> error + byte list"
  and writeArray_loop :: "byte list \<Rightarrow> jsval option list \<Rightarrow> error + byte list"
  and writeObject :: "byte list \<Rightarrow> (string \<times> jsval) list \<Rightarrow> error + byte list"
  and writeObject_loop :: "byte list \<Rightarrow> (string \<times> jsval) list \<Rightarrow> error + byte list"
where
  "writeValue buf JNull = Inr (writeNull buf)"
| "writeValue buf (JBool v) = Inr (writeBoolean buf v)"
| "writeValue buf (JNumber v) = Inr (writeNumber buf v)"
| "writeValue buf (JString v) = Inr (writeString buf v)"
| "writeValue buf (JArray v) = writeArray buf v"
| "writeValue buf (JObject v) = writeObject buf v"
| "writeValue buf JUndefined = Inl UnsupportedValueType"
| "writeValue buf (JBigInt v) = Inl UnsupportedValueType"
| "writeValue buf (JSymbol v) = Inl UnsupportedValueType"
| "writeValue buf (JFunction v) = Inl UnsupportedValueType"
| "writeArray buf v =
     (if length v = 0 then Inr (writeTag buf TYPE_TAG_ARRAY_EMPTY)
      else writeArray_loop
             (writeCount buf TYPE_TAG_ARRAY_SHORT TYPE_TAG_ARRAY_MEDIUM TYPE_TAG_ARRAY_LONG
                (length v)) v)"
| "writeArray_loop buf [] = Inr buf"
| "writeArray_loop buf (None # items) =
     (case writeValue buf JUndefined of
        Inl e \<Rightarrow> Inl e
      | Inr buf' \<Rightarrow> writeArray_loop buf' items)"
| "writeArray_loop buf (Some item # items) =
     (case writeValue buf item of
        Inl e \<Rightarrow> Inl e
      | Inr buf' \<Rightarrow> writeArray_loop buf' items)"
| "writeObject buf v =
     (if length v = 0 then Inr (writeTag buf TYPE_TAG_OBJECT_EMPTY)
      else writeObject_loop
             (writeCount buf TYPE_TAG_OBJECT_SHORT TYPE_TAG_OBJECT_MEDIUM TYPE_TAG_OBJECT_LONG
                (length v)) v)"
| "writeObject_loop buf [] = Inr buf"
| "writeObject_loop buf ((key, item) # props) =
     (case writeValue (writeKeyString buf key) item of
        Inl e \<Rightarrow> Inl e
      | Inr buf' \<Rightarrow> writeObject_loop buf' props)"
  by pat_completeness auto
termination
  by (relation "measure (case_sum
        (case_sum (\<lambda>(buf, v). 2 * size v + 2) (\<lambda>(buf, v). 2 * size (JArray v) + 1))
        (case_sum (\<lambda>(buf, v). 2 * size (JArray v))
           (case_sum (\<lambda>(buf, v). 2 * size (JObject v) + 1) (\<lambda>(buf, v). 2 * size (JObject v)))))")
     auto

declare writeArray.simps [simp del] writeObject.simps [simp del]

text \<open>
  The same writers with a key map: an object key is written as the varint of its index
  in the string table. \<open>writeArray\<close> with a key map is \<open>writeArrayK\<close> here.
\<close>

function (sequential) writeValueWithKeyMap :: "byte list \<Rightarrow> jsval \<Rightarrow> (string \<rightharpoonup> nat) \<Rightarrow> error + byte list"
  and writeArrayK :: "byte list \<Rightarrow> jsval option list \<Rightarrow> (string \<rightharpoonup> nat) \<Rightarrow> error + byte list"
  and writeArrayK_loop :: "byte list \<Rightarrow> jsval option list \<Rightarrow> (string \<rightharpoonup> nat) \<Rightarrow> error + byte list"
  and writeObjectWithKeyMap :: "byte list \<Rightarrow> (string \<times> jsval) list \<Rightarrow> (string \<rightharpoonup> nat) \<Rightarrow> error + byte list"
  and writeObjectWithKeyMap_loop :: "byte list \<Rightarrow> (string \<times> jsval) list \<Rightarrow> (string \<rightharpoonup> nat) \<Rightarrow> error + byte list"
where
  "writeValueWithKeyMap buf JNull keyMap = Inr (writeNull buf)"
| "writeValueWithKeyMap buf (JBool v) keyMap = Inr (writeBoolean buf v)"
| "writeValueWithKeyMap buf (JNumber v) keyMap = Inr (writeNumber buf v)"
| "writeValueWithKeyMap buf (JString v) keyMap = Inr (writeString buf v)"
| "writeValueWithKeyMap buf (JArray v) keyMap = writeArrayK buf v keyMap"
| "writeValueWithKeyMap buf (JObject v) keyMap = writeObjectWithKeyMap buf v keyMap"
| "writeValueWithKeyMap buf JUndefined keyMap = Inl UnsupportedValueType"
| "writeValueWithKeyMap buf (JBigInt v) keyMap = Inl UnsupportedValueType"
| "writeValueWithKeyMap buf (JSymbol v) keyMap = Inl UnsupportedValueType"
| "writeValueWithKeyMap buf (JFunction v) keyMap = Inl UnsupportedValueType"
| "writeArrayK buf v keyMap =
     (if length v = 0 then Inr (writeTag buf TYPE_TAG_ARRAY_EMPTY)
      else writeArrayK_loop
             (writeCount buf TYPE_TAG_ARRAY_SHORT TYPE_TAG_ARRAY_MEDIUM TYPE_TAG_ARRAY_LONG
                (length v)) v keyMap)"
| "writeArrayK_loop buf [] keyMap = Inr buf"
| "writeArrayK_loop buf (None # items) keyMap =
     (case writeValueWithKeyMap buf JUndefined keyMap of
        Inl e \<Rightarrow> Inl e
      | Inr buf' \<Rightarrow> writeArrayK_loop buf' items keyMap)"
| "writeArrayK_loop buf (Some item # items) keyMap =
     (case writeValueWithKeyMap buf item keyMap of
        Inl e \<Rightarrow> Inl e
      | Inr buf' \<Rightarrow> writeArrayK_loop buf' items keyMap)"
| "writeObjectWithKeyMap buf v keyMap =
     (if length v = 0 then Inr (writeTag buf TYPE_TAG_OBJECT_EMPTY)
      else writeObjectWithKeyMap_loop
             (writeCount buf TYPE_TAG_OBJECT_SHORT TYPE_TAG_OBJECT_MEDIUM TYPE_TAG_OBJECT_LONG
                (length v)) v keyMap)"
| "writeObjectWithKeyMap_loop buf [] keyMap = Inr buf"
| "writeObjectWithKeyMap_loop buf ((key, item) # props) keyMap =
     (case writeValueWithKeyMap (writeKeyIndex buf (keyMap key)) item keyMap of
        Inl e \<Rightarrow> Inl e
      | Inr buf' \<Rightarrow> writeObjectWithKeyMap_loop buf' props keyMap)"
  by pat_completeness auto
termination
  by (relation "measure (case_sum
        (case_sum (\<lambda>(buf, v, m). 2 * size v + 2) (\<lambda>(buf, v, m). 2 * size (JArray v) + 1))
        (case_sum (\<lambda>(buf, v, m). 2 * size (JArray v))
           (case_sum (\<lambda>(buf, v, m). 2 * size (JObject v) + 1)
              (\<lambda>(buf, v, m). 2 * size (JObject v)))))")
     auto

declare writeArrayK.simps [simp del] writeObjectWithKeyMap.simps [simp del]

subsection \<open>The string table and the decision to use it\<close>

text \<open>\<open>keys.add(key)\<close> on a \<open>Set\<close>, which keeps insertion order.\<close>

definition set_add :: "string list \<Rightarrow> string \<Rightarrow> string list" where
  "set_add keys key = (if key \<in> set keys then keys else keys @ [key])"

fun collectKeys :: "jsval \<Rightarrow> string list \<Rightarrow> string list"
  and collectKeys_items :: "jsval option list \<Rightarrow> string list \<Rightarrow> string list"
  and collectKeys_props :: "(string \<times> jsval) list \<Rightarrow> string list \<Rightarrow> string list"
where
  "collectKeys (JArray v) keys = collectKeys_items v keys"
| "collectKeys (JObject v) keys = collectKeys_props v keys"
| "collectKeys v keys = keys"
| "collectKeys_items [] keys = keys"
| "collectKeys_items (None # items) keys = collectKeys_items items (collectKeys JUndefined keys)"
| "collectKeys_items (Some item # items) keys = collectKeys_items items (collectKeys item keys)"
| "collectKeys_props [] keys = keys"
| "collectKeys_props ((key, item) # props) keys =
     collectKeys_props props (collectKeys item (set_add keys key))"

text \<open>\<open>keyUsage.set(key, (keyUsage.get(key) || 0) + 1)\<close> on a \<open>Map\<close>.\<close>

fun keyUsage_count :: "(string \<times> nat) list \<Rightarrow> string \<Rightarrow> (string \<times> nat) list" where
  "keyUsage_count [] key = [(key, 1)]"
| "keyUsage_count ((k, c) # m) key =
     (if k = key then (k, c + 1) # m else (k, c) # keyUsage_count m key)"

fun countKeys :: "jsval \<Rightarrow> (string \<times> nat) list \<Rightarrow> (string \<times> nat) list"
  and countKeys_items :: "jsval option list \<Rightarrow> (string \<times> nat) list \<Rightarrow> (string \<times> nat) list"
  and countKeys_props :: "(string \<times> jsval) list \<Rightarrow> (string \<times> nat) list \<Rightarrow> (string \<times> nat) list"
where
  "countKeys (JArray v) keyUsage = countKeys_items v keyUsage"
| "countKeys (JObject v) keyUsage = countKeys_props v keyUsage"
| "countKeys v keyUsage = keyUsage"
| "countKeys_items [] keyUsage = keyUsage"
| "countKeys_items (None # items) keyUsage = countKeys_items items (countKeys JUndefined keyUsage)"
| "countKeys_items (Some item # items) keyUsage = countKeys_items items (countKeys item keyUsage)"
| "countKeys_props [] keyUsage = keyUsage"
| "countKeys_props ((key, item) # props) keyUsage =
     countKeys_props props (countKeys item (keyUsage_count keyUsage key))"

text \<open>
  \<open>estimateRepetitionSavings\<close> returns \<open>1000\<close> or \<open>-1000\<close>. The quotient
  \<open>avgSavingsPerKey\<close> is \<open>NaN\<close> when no key occurs, and \<open>NaN > 2\<close> is false; in HOL the
  quotient is then 0 and the comparison is false as well.
\<close>

definition estimateRepetitionSavings :: "jsval \<Rightarrow> string list \<Rightarrow> int" where
  "estimateRepetitionSavings v keys =
     (let keyUsage = countKeys v [];
          totalKeyBytes = (\<Sum>(key, count) \<leftarrow> keyUsage. count * (1 + js_length key));
          singleUseKeys = length (filter (\<lambda>c. c = 1) (map snd keyUsage))
      in if real singleUseKeys > real (length keys) * 0.5 then - 1000
         else
           (let avgSavingsPerKey = real totalKeyBytes / real (sum_list (map snd keyUsage))
            in if avgSavingsPerKey > 2 then 1000 else - 1000))"

definition writeStringTable :: "byte list \<Rightarrow> string list \<Rightarrow> byte list" where
  "writeStringTable buf keys =
     foldl (\<lambda>b key. (let bytes = textEncoder_encode key in writeVarint b (length bytes) @ bytes))
       (writeVarint (writeTag buf TYPE_TAG_HEADER_WITH_STRING_TABLE @ [of_nat FORMAT_VERSION])
          (length keys))
       keys"

text \<open>\<open>new Map(keys.map((k, i) => [k, i]))\<close>: a later entry replaces an earlier one.\<close>

definition keyMap_of :: "string list \<Rightarrow> (string \<rightharpoonup> nat)" where
  "keyMap_of keys = map_of (rev (zip keys [0 ..< length keys]))"

text \<open>
  The test of \<open>encodeValue\<close> for the string-table form, with the values it is computed
  from: the collected keys, the size estimate \<open>headerSize\<close> and the estimate of the savings.
\<close>

definition stringTableChosen :: "jsval \<Rightarrow> bool" where
  "stringTableChosen v =
     (let keys = collectKeys v [];
          headerSize = 10 + foldl (\<lambda>sum k. sum + js_length k + 2) 0 keys;
          repetitionSavings = estimateRepetitionSavings v keys
      in repetitionSavings > int headerSize)"

definition encodeValue :: "jsval \<Rightarrow> ResolvedEncodeOptions \<Rightarrow> error + byte list" where
  "encodeValue v options =
     (let buf = [] in
      if useStringTable options \<and> stringTableChosen v then
        (let keys = collectKeys v [];
             buf1 = (if includeHeader options then buf @ map of_nat MAGIC_NUMBER else buf);
             buf2 = writeStringTable buf1 keys;
             keyMap = keyMap_of keys
         in writeValueWithKeyMap buf2 v keyMap)
      else
        (let buf1 = (if includeHeader options then writeHeader buf else buf)
         in writeValue buf1 v))"

subsection \<open>Normalisation and the public entry point\<close>

fun normalizeValue :: "jsval \<Rightarrow> jsval"
  and normalizeValue_items :: "jsval option list \<Rightarrow> jsval option list"
  and normalizeValue_entries :: "(string \<times> jsval) list \<Rightarrow> (string \<times> jsval) list \<Rightarrow> (string \<times> jsval) list"
where
  "normalizeValue JUndefined = JNull"
| "normalizeValue JNull = JNull"
| "normalizeValue (JBool v) = JBool v"
| "normalizeValue (JNumber v) = JNumber v"
| "normalizeValue (JString v) = JString v"
| "normalizeValue (JArray v) = JArray (normalizeValue_items v)"
| "normalizeValue (JObject v) = JObject (normalizeValue_entries v [])"
| "normalizeValue (JBigInt s) = JString s"
| "normalizeValue (JSymbol s) = JString s"
| "normalizeValue (JFunction s) = JString s"
| "normalizeValue_items [] = []"
| "normalizeValue_items (None # items) = None # normalizeValue_items items"
| "normalizeValue_items (Some item # items) = Some (normalizeValue item) # normalizeValue_items items"
| "normalizeValue_entries [] result = result"
| "normalizeValue_entries ((key, val) # entries) result =
     (if val \<noteq> JUndefined
      then normalizeValue_entries entries (object_set result key (normalizeValue val))
      else normalizeValue_entries entries result)"

definition resolveEncodeOptions :: "EncodeOptions option \<Rightarrow> ResolvedEncodeOptions" where
  "resolveEncodeOptions options =
     \<lparr>includeHeader = (case Option.bind options includeHeader_opt of Some b \<Rightarrow> b | None \<Rightarrow> True),
      initialBufferSize =
        (case Option.bind options initialBufferSize_opt of Some n \<Rightarrow> n | None \<Rightarrow> 4096),
      useStringTable = (case Option.bind options useStringTable_opt of Some b \<Rightarrow> b | None \<Rightarrow> True)\<rparr>"

definition encode :: "jsval \<Rightarrow> EncodeOptions option \<Rightarrow> error + byte list" where
  "encode input options = encodeValue (normalizeValue input) (resolveEncodeOptions options)"

section \<open>The eager decoder of the fixed-width scheme\<close>

record ResolvedDecodeOptions =
  expectHeader :: bool
  strict :: bool

record DecodeOptions =
  expectHeader_opt :: "bool option"
  strict_opt :: "bool option"

definition resolveDecodeOptions :: "DecodeOptions option \<Rightarrow> ResolvedDecodeOptions" where
  "resolveDecodeOptions options =
     \<lparr>expectHeader = (case Option.bind options expectHeader_opt of Some b \<Rightarrow> b | None \<Rightarrow> True),
      strict = (case Option.bind options strict_opt of Some b \<Rightarrow> b | None \<Rightarrow> True)\<rparr>"

definition readString :: "reader \<Rightarrow> nat \<Rightarrow> error + (string \<times> reader)" where
  "readString r tag =
     (if tag = TYPE_TAG_STRING_EMPTY then Inr ([], r)
      else
        (case (if tag = TYPE_TAG_STRING_SHORT then readUint8 r
               else if tag = TYPE_TAG_STRING_MEDIUM then readUint16 r
               else if tag = TYPE_TAG_STRING_LONG then readUint32 r
               else Inl (InvalidTag tag)) of
           Inl e \<Rightarrow> Inl e
         | Inr (len, r') \<Rightarrow>
             (case readBytes r' (int len) of
                Inl e \<Rightarrow> Inl e
              | Inr (bytes, r'') \<Rightarrow> Inr (textDecoder_decode bytes, r''))))"

text \<open>
  \<open>readKeyString\<close>: the test for a common key comes first. \<open>!key\<close> holds for a missing
  entry and for the empty string.
\<close>

definition readKeyString :: "reader \<Rightarrow> error + (string \<times> reader)" where
  "readKeyString r =
     (case readUint8 r of
        Inl e \<Rightarrow> Inl e
      | Inr (firstByte, r') \<Rightarrow>
          if firstByte \<ge> COMMON_KEY_MIN \<and> firstByte \<le> COMMON_KEY_MAX then
            (let keyIndex = firstByte - COMMON_KEY_MIN in
             if keyIndex \<ge> length COMMON_KEYS \<or> COMMON_KEYS ! keyIndex = []
             then Inl (InvalidCommonKeyIndex keyIndex)
             else Inr (COMMON_KEYS ! keyIndex, r'))
          else
            (case (if firstByte = 254 then readUint16 r'
                   else if firstByte = 255 then readUint32 r'
                   else Inr (firstByte, r')) of
               Inl e \<Rightarrow> Inl e
             | Inr (len, r'') \<Rightarrow>
                 (case readBytes r'' (int len) of
                    Inl e \<Rightarrow> Inl e
                  | Inr (bytes, r''') \<Rightarrow> Inr (textDecoder_decode bytes, r'''))))"

text \<open>
  The length field of a container, as \<open>readArray\<close>, \<open>readObject\<close> and their key-table
  variants read it after their test for the empty tag, and as \<open>getArrayLength\<close> and
  \<open>getObjectKeyCount\<close> of the streaming decoder read it.
\<close>

definition readCount :: "reader \<Rightarrow> nat \<Rightarrow> nat \<Rightarrow> nat \<Rightarrow> nat \<Rightarrow> error + (nat \<times> reader)" where
  "readCount r tag tagShort tagMedium tagLong =
     (if tag = tagShort then readUint8 r
      else if tag = tagMedium then readUint16 r
      else if tag = tagLong then readUint32 r
      else Inl (InvalidTag tag))"

text \<open>
  A value that is not a container. \<open>readValue\<close>, \<open>readValueWithKeyTable\<close> and
  \<open>streamValue\<close> test the tags in this order before they come to the container tags;
  \<open>None\<close> stands for none of them. The 64-bit integer is returned as \<open>Number(bigInt)\<close>,
  the bits of the two floating-point tags as the number they denote.
\<close>

definition readPrimitive :: "reader \<Rightarrow> nat \<Rightarrow> (error + (jsval \<times> reader)) option" where
  "readPrimitive r tag =
     (if tag = TYPE_TAG_NULL then Some (Inr (JNull, r))
      else if tag = TYPE_TAG_FALSE then Some (Inr (JBool False, r))
      else if tag = TYPE_TAG_TRUE then Some (Inr (JBool True, r))
      else if tag = TYPE_TAG_INT8 then
        Some (case readInt8 r of Inl e \<Rightarrow> Inl e | Inr (v, r') \<Rightarrow> Inr (JNumber (NInt v), r'))
      else if tag = TYPE_TAG_INT16 then
        Some (case readInt16 r of Inl e \<Rightarrow> Inl e | Inr (v, r') \<Rightarrow> Inr (JNumber (NInt v), r'))
      else if tag = TYPE_TAG_INT32 then
        Some (case readInt32 r of Inl e \<Rightarrow> Inl e | Inr (v, r') \<Rightarrow> Inr (JNumber (NInt v), r'))
      else if tag = TYPE_TAG_INT64 then
        Some (case readBigInt64 r of
                Inl e \<Rightarrow> Inl e
              | Inr (v, r') \<Rightarrow> Inr (JNumber (NInt (toNumber v)), r'))
      else if tag = TYPE_TAG_UINT8 then
        Some (case readUint8 r of Inl e \<Rightarrow> Inl e | Inr (v, r') \<Rightarrow> Inr (JNumber (NInt (int v)), r'))
      else if tag = TYPE_TAG_UINT16 then
        Some (case readUint16 r of Inl e \<Rightarrow> Inl e | Inr (v, r') \<Rightarrow> Inr (JNumber (NInt (int v)), r'))
      else if tag = TYPE_TAG_UINT32 then
        Some (case readUint32 r of Inl e \<Rightarrow> Inl e | Inr (v, r') \<Rightarrow> Inr (JNumber (NInt (int v)), r'))
      else if tag = TYPE_TAG_FLOAT32 then
        Some (case readFloat32 r of Inl e \<Rightarrow> Inl e | Inr (v, r') \<Rightarrow> Inr (JNumber (number_of_float32 v), r'))
      else if tag = TYPE_TAG_FLOAT64 then
        Some (case readFloat64 r of Inl e \<Rightarrow> Inl e | Inr (v, r') \<Rightarrow> Inr (JNumber (number_of_float64 v), r'))
      else if tag = TYPE_TAG_STRING_EMPTY \<or> tag = TYPE_TAG_STRING_SHORT
              \<or> tag = TYPE_TAG_STRING_MEDIUM \<or> tag = TYPE_TAG_STRING_LONG then
        Some (case readString r tag of Inl e \<Rightarrow> Inl e | Inr (v, r') \<Rightarrow> Inr (JString v, r'))
      else None)"

definition isArrayTag :: "nat \<Rightarrow> bool" where
  "isArrayTag tag \<longleftrightarrow> tag = TYPE_TAG_ARRAY_EMPTY \<or> tag = TYPE_TAG_ARRAY_SHORT
     \<or> tag = TYPE_TAG_ARRAY_MEDIUM \<or> tag = TYPE_TAG_ARRAY_LONG"

definition isObjectTag :: "nat \<Rightarrow> bool" where
  "isObjectTag tag \<longleftrightarrow> tag = TYPE_TAG_OBJECT_EMPTY \<or> tag = TYPE_TAG_OBJECT_SHORT
     \<or> tag = TYPE_TAG_OBJECT_MEDIUM \<or> tag = TYPE_TAG_OBJECT_LONG"

text \<open>
  The recursive readers take a bound on the number of calls still allowed (every call
  passes on one less); \<open>decodeValue\<close> below starts them with a bound computed from the
  length of the input. The loops \<open>for (let i = 0; i < length; i++)\<close> carry \<open>i\<close> and the
  value built so far.
\<close>

function readValue :: "nat \<Rightarrow> reader \<Rightarrow> error + (jsval \<times> reader)"
  and readArray :: "nat \<Rightarrow> reader \<Rightarrow> nat \<Rightarrow> error + (jsval \<times> reader)"
  and readArray_loop :: "nat \<Rightarrow> nat \<Rightarrow> nat \<Rightarrow> reader \<Rightarrow> jsval option list \<Rightarrow> error + (jsval \<times> reader)"
  and readObject :: "nat \<Rightarrow> reader \<Rightarrow> nat \<Rightarrow> error + (jsval \<times> reader)"
  and readObject_loop :: "nat \<Rightarrow> nat \<Rightarrow> nat \<Rightarrow> reader \<Rightarrow> (string \<times> jsval) list \<Rightarrow> error + (jsval \<times> reader)"
where
  "readValue fuel r =
     (if fuel = 0 then Inl OutOfFuel
      else
        (case readUint8 r of
           Inl e \<Rightarrow> Inl e
         | Inr (tag, r') \<Rightarrow>
             (case readPrimitive r' tag of
                Some res \<Rightarrow> res
              | None \<Rightarrow>
                  if isArrayTag tag then readArray (fuel - 1) r' tag
                  else if isObjectTag tag then readObject (fuel - 1) r' tag
                  else Inl (UnknownTypeTag tag))))"
| "readArray fuel r tag =
     (if fuel = 0 then Inl OutOfFuel
      else if tag = TYPE_TAG_ARRAY_EMPTY then Inr (JArray [], r)
      else
        (case readCount r tag TYPE_TAG_ARRAY_SHORT TYPE_TAG_ARRAY_MEDIUM TYPE_TAG_ARRAY_LONG of
           Inl e \<Rightarrow> Inl e
         | Inr (len, r') \<Rightarrow> readArray_loop (fuel - 1) 0 len r' []))"
| "readArray_loop fuel i len r result =
     (if fuel = 0 then Inl OutOfFuel
      else if i < len then
        (case readValue (fuel - 1) r of
           Inl e \<Rightarrow> Inl e
         | Inr (v, r') \<Rightarrow> readArray_loop (fuel - 1) (i + 1) len r' (result @ [Some v]))
      else Inr (JArray result, r))"
| "readObject fuel r tag =
     (if fuel = 0 then Inl OutOfFuel
      else if tag = TYPE_TAG_OBJECT_EMPTY then Inr (JObject [], r)
      else
        (case readCount r tag TYPE_TAG_OBJECT_SHORT TYPE_TAG_OBJECT_MEDIUM TYPE_TAG_OBJECT_LONG of
           Inl e \<Rightarrow> Inl e
         | Inr (keyCount, r') \<Rightarrow> readObject_loop (fuel - 1) 0 keyCount r' []))"
| "readObject_loop fuel i keyCount r result =
     (if fuel = 0 then Inl OutOfFuel
      else if i < keyCount then
        (case readKeyString r of
           Inl e \<Rightarrow> Inl e
         | Inr (key, r') \<Rightarrow>
             (case readValue (fuel - 1) r' of
                Inl e \<Rightarrow> Inl e
              | Inr (v, r'') \<Rightarrow>
                  readObject_loop (fuel - 1) (i + 1) keyCount r'' (object_set result key v)))
      else Inr (JObject result, r))"
  by pat_completeness auto
termination
  by (relation "measure (case_sum
        (case_sum (\<lambda>(fuel, r). fuel) (\<lambda>(fuel, r, tag). fuel))
        (case_sum (\<lambda>(fuel, i, len, r, result). fuel)
           (case_sum (\<lambda>(fuel, r, tag). fuel) (\<lambda>(fuel, i, len, r, result). fuel))))")
     auto

declare readValue.simps [simp del] readArray.simps [simp del] readArray_loop.simps [simp del]
  readObject.simps [simp del] readObject_loop.simps [simp del]

text \<open>
  The readers for a message with a string table. An index below zero (the 32-bit varint
  reader can return one) passes the test \<open>keyIndex >= keyTable.length\<close>; the key is then
  \<open>undefined\<close>, and \<open>result[undefined]\<close> is the property named \<open>undefined\<close>.
\<close>

definition keyTable_get :: "string list \<Rightarrow> int \<Rightarrow> string option" where
  "keyTable_get keyTable keyIndex =
     (if 0 \<le> keyIndex \<and> keyIndex < int (length keyTable) then Some (keyTable ! nat keyIndex)
      else None)"

function readValueWithKeyTable :: "nat \<Rightarrow> reader \<Rightarrow> string list \<Rightarrow> error + (jsval \<times> reader)"
  and readArrayWithKeyTable :: "nat \<Rightarrow> reader \<Rightarrow> nat \<Rightarrow> string list \<Rightarrow> error + (jsval \<times> reader)"
  and readArrayWithKeyTable_loop :: "nat \<Rightarrow> nat \<Rightarrow> nat \<Rightarrow> reader \<Rightarrow> string list \<Rightarrow> jsval option list \<Rightarrow> error + (jsval \<times> reader)"
  and readObjectWithKeyTable :: "nat \<Rightarrow> reader \<Rightarrow> nat \<Rightarrow> string list \<Rightarrow> error + (jsval \<times> reader)"
  and readObjectWithKeyTable_loop :: "nat \<Rightarrow> nat \<Rightarrow> nat \<Rightarrow> reader \<Rightarrow> string list \<Rightarrow> (string \<times> jsval) list \<Rightarrow> error + (jsval \<times> reader)"
where
  "readValueWithKeyTable fuel r keyTable =
     (if fuel = 0 then Inl OutOfFuel
      else
        (case readUint8 r of
           Inl e \<Rightarrow> Inl e
         | Inr (tag, r') \<Rightarrow>
             (case readPrimitive r' tag of
                Some res \<Rightarrow> res
              | None \<Rightarrow>
                  if isArrayTag tag then readArrayWithKeyTable (fuel - 1) r' tag keyTable
                  else if isObjectTag tag then readObjectWithKeyTable (fuel - 1) r' tag keyTable
                  else Inl (UnknownTypeTag tag))))"
| "readArrayWithKeyTable fuel r tag keyTable =
     (if fuel = 0 then Inl OutOfFuel
      else if tag = TYPE_TAG_ARRAY_EMPTY then Inr (JArray [], r)
      else
        (case readCount r tag TYPE_TAG_ARRAY_SHORT TYPE_TAG_ARRAY_MEDIUM TYPE_TAG_ARRAY_LONG of
           Inl e \<Rightarrow> Inl e
         | Inr (len, r') \<Rightarrow> readArrayWithKeyTable_loop (fuel - 1) 0 len r' keyTable []))"
| "readArrayWithKeyTable_loop fuel i len r keyTable result =
     (if fuel = 0 then Inl OutOfFuel
      else if i < len then
        (case readValueWithKeyTable (fuel - 1) r keyTable of
           Inl e \<Rightarrow> Inl e
         | Inr (v, r') \<Rightarrow>
             readArrayWithKeyTable_loop (fuel - 1) (i + 1) len r' keyTable (result @ [Some v]))
      else Inr (JArray result, r))"
| "readObjectWithKeyTable fuel r tag keyTable =
     (if fuel = 0 then Inl OutOfFuel
      else if tag = TYPE_TAG_OBJECT_EMPTY then Inr (JObject [], r)
      else
        (case readCount r tag TYPE_TAG_OBJECT_SHORT TYPE_TAG_OBJECT_MEDIUM TYPE_TAG_OBJECT_LONG of
           Inl e \<Rightarrow> Inl e
         | Inr (keyCount, r') \<Rightarrow>
             readObjectWithKeyTable_loop (fuel - 1) 0 keyCount r' keyTable []))"
| "readObjectWithKeyTable_loop fuel i keyCount r keyTable result =
     (if fuel = 0 then Inl OutOfFuel
      else if i < keyCount then
        (case readVarint r of
           Inl e \<Rightarrow> Inl e
         | Inr (keyIndex, r') \<Rightarrow>
             if keyIndex \<ge> int (length keyTable) then Inl (InvalidKeyIndex keyIndex)
             else
               (let key = (case keyTable_get keyTable keyIndex of
                             Some k \<Rightarrow> k | None \<Rightarrow> ''undefined'')
                in case readValueWithKeyTable (fuel - 1) r' keyTable of
                     Inl e \<Rightarrow> Inl e
                   | Inr (v, r'') \<Rightarrow>
                       readObjectWithKeyTable_loop (fuel - 1) (i + 1) keyCount r'' keyTable
                         (object_set result key v)))
      else Inr (JObject result, r))"
  by pat_completeness auto
termination
  by (relation "measure (case_sum
        (case_sum (\<lambda>(fuel, r). fuel) (\<lambda>(fuel, r, tag). fuel))
        (case_sum (\<lambda>(fuel, i, len, r, result). fuel)
           (case_sum (\<lambda>(fuel, r, tag). fuel) (\<lambda>(fuel, i, len, r, result). fuel))))")
     auto

declare readValueWithKeyTable.simps [simp del] readArrayWithKeyTable.simps [simp del]
  readArrayWithKeyTable_loop.simps [simp del] readObjectWithKeyTable.simps [simp del]
  readObjectWithKeyTable_loop.simps [simp del]

text \<open>
  The string table of a header. \<open>readStringTable\<close> of the eager decoder reads the version
  byte and does not look at it.
\<close>

function readKeys_loop :: "nat \<Rightarrow> int \<Rightarrow> reader \<Rightarrow> string list \<Rightarrow> error + (string list \<times> reader)" where
  "readKeys_loop i keyCount r keys =
     (if int i < keyCount then
        (case readVarint r of
           Inl e \<Rightarrow> Inl e
         | Inr (len, r') \<Rightarrow>
             (case readBytes r' len of
                Inl e \<Rightarrow> Inl e
              | Inr (bytes, r'') \<Rightarrow>
                  readKeys_loop (i + 1) keyCount r'' (keys @ [textDecoder_decode bytes])))
      else Inr (keys, r))"
  by pat_completeness auto
termination
  by (relation "measure (\<lambda>(i, keyCount, r, keys). nat (keyCount - int i))") auto

declare readKeys_loop.simps [simp del]

definition readStringTable :: "reader \<Rightarrow> error + (string list \<times> reader)" where
  "readStringTable r =
     (case readUint8 r of
        Inl e \<Rightarrow> Inl e
      | Inr (version, r') \<Rightarrow>
          (case readVarint r' of
             Inl e \<Rightarrow> Inl e
           | Inr (keyCount, r'') \<Rightarrow> readKeys_loop 0 keyCount r'' []))"

text \<open>
  Every call of a recursive reader that returns has consumed a byte, so a number of calls
  beyond three times the length of the input is never needed: \<open>decodeValue\<close> and
  \<open>decodeStreamSync\<close> never end with \<open>OutOfFuel\<close> (\<open>decodeValue_fuel\<close> and
  \<open>decodeStreamSync_fuel\<close> below).
\<close>

definition decode_fuel :: "byte list \<Rightarrow> nat" where
  "decode_fuel data = 3 * length data + 3"

definition decodeValue :: "byte list \<Rightarrow> ResolvedDecodeOptions \<Rightarrow> error + jsval" where
  "decodeValue data options =
     (let reader = createBinaryReader data; fuel = decode_fuel data in
      map_sum id fst
        (if expectHeader options then
           (case readUint8 reader of
              Inl e \<Rightarrow> Inl e
            | Inr (firstByte, r1) \<Rightarrow>
                if firstByte = MAGIC_NUMBER ! 0 then
                  (case readUint8 r1 of Inl e \<Rightarrow> Inl e | Inr (m1, r2) \<Rightarrow>
                   case readUint8 r2 of Inl e \<Rightarrow> Inl e | Inr (m2, r3) \<Rightarrow>
                   case readUint8 r3 of Inl e \<Rightarrow> Inl e | Inr (m3, r4) \<Rightarrow>
                     if m1 \<noteq> MAGIC_NUMBER ! 1 \<or> m2 \<noteq> MAGIC_NUMBER ! 2 \<or> m3 \<noteq> MAGIC_NUMBER ! 3
                     then Inl InvalidMagicNumber
                     else
                       (case readUint8 r4 of
                          Inl e \<Rightarrow> Inl e
                        | Inr (versionOrTag, r5) \<Rightarrow>
                            if versionOrTag = TYPE_TAG_HEADER_WITH_STRING_TABLE then
                              (case readStringTable r5 of
                                 Inl e \<Rightarrow> Inl e
                               | Inr (keyTable, r6) \<Rightarrow> readValueWithKeyTable fuel r6 keyTable)
                            else if versionOrTag > FORMAT_VERSION
                            then Inl (UnsupportedVersion versionOrTag)
                            else readValue fuel r5))
                else if firstByte = TYPE_TAG_HEADER_WITH_STRING_TABLE then
                  (case readStringTable r1 of
                     Inl e \<Rightarrow> Inl e
                   | Inr (keyTable, r2) \<Rightarrow> readValueWithKeyTable fuel r2 keyTable)
                else Inl InvalidHeader)
         else readValue fuel reader))"

definition decode :: "byte list \<Rightarrow> DecodeOptions option \<Rightarrow> error + jsval" where
  "decode data options = decodeValue data (resolveDecodeOptions options)"

section \<open>The streaming decoder\<close>

datatype BoonStreamEvent =
    EHeader nat
  | EStartObject nat
  | EEndObject
  | EStartArray nat
  | EEndArray
  | EKey string
  | EPrimitive jsval

text \<open>
  A generator run to its end is the list of the events it has yielded together with how
  it ended: with an exception, or with the reader it leaves behind. The events yielded
  before an exception stay in the list.
\<close>

type_synonym 'a stream_result = "BoonStreamEvent list \<times> (error + 'a)"

text \<open>
  \<open>readHeaderEvents\<close> reads the whole string table before it yields the header event, and
  returns the table (\<open>null\<close> without one).
\<close>

definition readHeaderEvents :: "reader \<Rightarrow> (string list option \<times> reader) stream_result" where
  "readHeaderEvents r =
     (case readBytes r 4 of
        Inl e \<Rightarrow> ([], Inl e)
      | Inr (magic, r1) \<Rightarrow>
          if map unat magic \<noteq> MAGIC_NUMBER then ([], Inl InvalidMagicNumber)
          else
            (case readUint8 r1 of
               Inl e \<Rightarrow> ([], Inl e)
             | Inr (firstByte, r2) \<Rightarrow>
                 if firstByte = TYPE_TAG_HEADER_WITH_STRING_TABLE then
                   (case readUint8 r2 of
                      Inl e \<Rightarrow> ([], Inl e)
                    | Inr (version, r3) \<Rightarrow>
                        if version > FORMAT_VERSION then ([], Inl (UnsupportedVersion version))
                        else
                          (case readVarint r3 of
                             Inl e \<Rightarrow> ([], Inl e)
                           | Inr (keyCount, r4) \<Rightarrow>
                               (case readKeys_loop 0 keyCount r4 [] of
                                  Inl e \<Rightarrow> ([], Inl e)
                                | Inr (keys, r5) \<Rightarrow> ([EHeader version], Inr (Some keys, r5)))))
                 else
                   (let version = firstByte in
                    if version > FORMAT_VERSION then ([], Inl (UnsupportedVersion version))
                    else ([EHeader version], Inr (None, r2)))))"

definition getArrayLength :: "reader \<Rightarrow> nat \<Rightarrow> error + (nat \<times> reader)" where
  "getArrayLength r tag =
     (if tag = TYPE_TAG_ARRAY_EMPTY then Inr (0, r)
      else readCount r tag TYPE_TAG_ARRAY_SHORT TYPE_TAG_ARRAY_MEDIUM TYPE_TAG_ARRAY_LONG)"

definition getObjectKeyCount :: "reader \<Rightarrow> nat \<Rightarrow> error + (nat \<times> reader)" where
  "getObjectKeyCount r tag =
     (if tag = TYPE_TAG_OBJECT_EMPTY then Inr (0, r)
      else readCount r tag TYPE_TAG_OBJECT_SHORT TYPE_TAG_OBJECT_MEDIUM TYPE_TAG_OBJECT_LONG)"

text \<open>
  The key of an object entry: an index into the key table when there is one (an index
  without an entry raises), the literal or common key otherwise.
\<close>

definition streamKey :: "reader \<Rightarrow> string list option \<Rightarrow> error + (string \<times> reader)" where
  "streamKey r keyTable =
     (case keyTable of
        Some table \<Rightarrow>
          (case readVarint r of
             Inl e \<Rightarrow> Inl e
           | Inr (keyIndex, r') \<Rightarrow>
               (case keyTable_get table keyIndex of
                  None \<Rightarrow> Inl (InvalidKeyIndex keyIndex)
                | Some key \<Rightarrow> Inr (key, r')))
      | None \<Rightarrow> readKeyString r)"

function streamValue :: "nat \<Rightarrow> reader \<Rightarrow> string list option \<Rightarrow> reader stream_result"
  and streamArray_loop :: "nat \<Rightarrow> nat \<Rightarrow> nat \<Rightarrow> reader \<Rightarrow> string list option \<Rightarrow> reader stream_result"
  and streamObject_loop :: "nat \<Rightarrow> nat \<Rightarrow> nat \<Rightarrow> reader \<Rightarrow> string list option \<Rightarrow> reader stream_result"
where
  "streamValue fuel r keyTable =
     (if fuel = 0 then ([], Inl OutOfFuel)
      else
        (case readUint8 r of
           Inl e \<Rightarrow> ([], Inl e)
         | Inr (tag, r') \<Rightarrow>
             (case readPrimitive r' tag of
                Some (Inl e) \<Rightarrow> ([], Inl e)
              | Some (Inr (v, r'')) \<Rightarrow> ([EPrimitive v], Inr r'')
              | None \<Rightarrow>
                  if isArrayTag tag then
                    (case getArrayLength r' tag of
                       Inl e \<Rightarrow> ([], Inl e)
                     | Inr (len, r'') \<Rightarrow>
                         (case streamArray_loop (fuel - 1) 0 len r'' keyTable of
                            (evs, Inl e) \<Rightarrow> (EStartArray len # evs, Inl e)
                          | (evs, Inr r''') \<Rightarrow> (EStartArray len # evs @ [EEndArray], Inr r''')))
                  else if isObjectTag tag then
                    (case getObjectKeyCount r' tag of
                       Inl e \<Rightarrow> ([], Inl e)
                     | Inr (keyCount, r'') \<Rightarrow>
                         (case streamObject_loop (fuel - 1) 0 keyCount r'' keyTable of
                            (evs, Inl e) \<Rightarrow> (EStartObject keyCount # evs, Inl e)
                          | (evs, Inr r''') \<Rightarrow>
                              (EStartObject keyCount # evs @ [EEndObject], Inr r''')))
                  else ([], Inl (UnknownTypeTag tag)))))"
| "streamArray_loop fuel i len r keyTable =
     (if fuel = 0 then ([], Inl OutOfFuel)
      else if i < len then
        (case streamValue (fuel - 1) r keyTable of
           (evs, Inl e) \<Rightarrow> (evs, Inl e)
         | (evs, Inr r') \<Rightarrow>
             (case streamArray_loop (fuel - 1) (i + 1) len r' keyTable of
                (evs', res) \<Rightarrow> (evs @ evs', res)))
      else ([], Inr r))"
| "streamObject_loop fuel i keyCount r keyTable =
     (if fuel = 0 then ([], Inl OutOfFuel)
      else if i < keyCount then
        (case streamKey r keyTable of
           Inl e \<Rightarrow> ([], Inl e)
         | Inr (key, r') \<Rightarrow>
             (case streamValue (fuel - 1) r' keyTable of
                (evs, Inl e) \<Rightarrow> (EKey key # evs, Inl e)
              | (evs, Inr r'') \<Rightarrow>
                  (case streamObject_loop (fuel - 1) (i + 1) keyCount r'' keyTable of
                     (evs', res) \<Rightarrow> (EKey key # evs @ evs', res))))
      else ([], Inr r))"
  by pat_completeness auto
termination
  by (relation "measure (case_sum (\<lambda>(fuel, r). fuel)
        (case_sum (\<lambda>(fuel, r). fuel) (\<lambda>(fuel, r). fuel)))")
     auto

declare streamValue.simps [simp del] streamArray_loop.simps [simp del]
  streamObject_loop.simps [simp del]

definition decodeStreamSync :: "byte list \<Rightarrow> DecodeOptions option \<Rightarrow> reader stream_result" where
  "decodeStreamSync data options =
     (let resolvedOptions = resolveDecodeOptions options;
          reader = createBinaryReader data;
          fuel = decode_fuel data
      in if expectHeader resolvedOptions then
           (case readHeaderEvents reader of
              (evs, Inl e) \<Rightarrow> (evs, Inl e)
            | (evs, Inr (keyTable, r)) \<Rightarrow>
                (case streamValue fuel r keyTable of (evs', res) \<Rightarrow> (evs @ evs', res)))
         else streamValue fuel reader None)"

text \<open>
  The events of a tree, written after the specification of the streaming decoder:
  a container's events lie between its start and end event, depth-first, in order; a key
  comes immediately before the events of its value; everything else is one primitive
  event. With a header the sequence starts with the header event.
\<close>

fun flatten :: "jsval \<Rightarrow> BoonStreamEvent list"
  and flatten_items :: "jsval option list \<Rightarrow> BoonStreamEvent list"
  and flatten_props :: "(string \<times> jsval) list \<Rightarrow> BoonStreamEvent list"
where
  "flatten (JArray items) = EStartArray (length items) # flatten_items items @ [EEndArray]"
| "flatten (JObject props) = EStartObject (length props) # flatten_props props @ [EEndObject]"
| "flatten v = [EPrimitive v]"
| "flatten_items [] = []"
| "flatten_items (None # items) = flatten JUndefined @ flatten_items items"
| "flatten_items (Some item # items) = flatten item @ flatten_items items"
| "flatten_props [] = []"
| "flatten_props ((key, item) # props) = EKey key # flatten item @ flatten_props props"

definition flatten_message :: "ResolvedDecodeOptions \<Rightarrow> jsval \<Rightarrow> BoonStreamEvent list" where
  "flatten_message options v =
     (if expectHeader options then EHeader FORMAT_VERSION # flatten v else flatten v)"

section \<open>Notions used to state the properties\<close>

subsection \<open>Typed reads\<close>

text \<open>
  \<open>remaining\<close> is the reader's own method. The typed reads are collected in one datatype
  so that a property can range over all of them: the bytes a read requires, and the read
  itself with the value it returns left out.
\<close>

definition remaining :: "reader \<Rightarrow> int" where
  "remaining r = int (length (buffer r)) - int (offset r)"

datatype typed_read =
    ReadUint8 | ReadInt8 | ReadUint16 | ReadInt16 | ReadUint32 | ReadInt32
  | ReadFloat32 | ReadFloat64 | ReadBigInt64 | ReadBytes nat

fun bytes_required :: "typed_read \<Rightarrow> nat" where
  "bytes_required ReadUint8 = 1"
| "bytes_required ReadInt8 = 1"
| "bytes_required ReadUint16 = 2"
| "bytes_required ReadInt16 = 2"
| "bytes_required ReadUint32 = 4"
| "bytes_required ReadInt32 = 4"
| "bytes_required ReadFloat32 = 4"
| "bytes_required ReadFloat64 = 8"
| "bytes_required ReadBigInt64 = 8"
| "bytes_required (ReadBytes n) = n"

fun read_outcome :: "typed_read \<Rightarrow> reader \<Rightarrow> error + reader" where
  "read_outcome ReadUint8 r = map_sum id snd (readUint8 r)"
| "read_outcome ReadInt8 r = map_sum id snd (readInt8 r)"
| "read_outcome ReadUint16 r = map_sum id snd (readUint16 r)"
| "read_outcome ReadInt16 r = map_sum id snd (readInt16 r)"
| "read_outcome ReadUint32 r = map_sum id snd (readUint32 r)"
| "read_outcome ReadInt32 r = map_sum id snd (readInt32 r)"
| "read_outcome ReadFloat32 r = map_sum id snd (readFloat32 r)"
| "read_outcome ReadFloat64 r = map_sum id snd (readFloat64 r)"
| "read_outcome ReadBigInt64 r = map_sum id snd (readBigInt64 r)"
| "read_outcome (ReadBytes n) r = map_sum id snd (readBytes r (int n))"

subsection \<open>Round trip\<close>

text \<open>\<open>decode(encode(v))\<close> with the default options of both.\<close>

definition roundtrip :: "jsval \<Rightarrow> error + jsval" where
  "roundtrip v = (case encode v None of Inl e \<Rightarrow> Inl e | Inr bytes \<Rightarrow> decode bytes None)"

subsection \<open>JSON values\<close>

text \<open>
  The values of the \<open>JsonValue\<close> type: null, booleans, numbers, strings, arrays without
  empty slots and objects, of such values.
\<close>

fun isJsonValue :: "jsval \<Rightarrow> bool"
  and isJsonArray :: "jsval option list \<Rightarrow> bool"
  and isJsonObject :: "(string \<times> jsval) list \<Rightarrow> bool"
where
  "isJsonValue JNull = True"
| "isJsonValue (JBool v) = True"
| "isJsonValue (JNumber v) = True"
| "isJsonValue (JString v) = True"
| "isJsonValue (JArray v) = isJsonArray v"
| "isJsonValue (JObject v) = isJsonObject v"
| "isJsonValue v = False"
| "isJsonArray [] = True"
| "isJsonArray (None # items) = False"
| "isJsonArray (Some item # items) = (isJsonValue item \<and> isJsonArray items)"
| "isJsonObject [] = True"
| "isJsonObject ((key, item) # props) = (isJsonValue item \<and> isJsonObject props)"

text \<open>An input without sparse arrays: no array in it has an empty slot.\<close>

fun isDense :: "jsval \<Rightarrow> bool"
  and isDense_items :: "jsval option list \<Rightarrow> bool"
  and isDense_props :: "(string \<times> jsval) list \<Rightarrow> bool"
where
  "isDense (JArray v) = isDense_items v"
| "isDense (JObject v) = isDense_props v"
| "isDense v = True"
| "isDense_items [] = True"
| "isDense_items (None # items) = False"
| "isDense_items (Some item # items) = (isDense item \<and> isDense_items items)"
| "isDense_props [] = True"
| "isDense_props ((key, item) # props) = (isDense item \<and> isDense_props props)"

subsection \<open>The cost model of the specification for the string table\<close>

text \<open>
  Written after the specification, for comparison with \<open>stringTableChosen\<close>: per distinct
  key, \<open>occurrences \<times> (1 + byteLength)\<close> is the cost without a table; the table costs its
  header, once per distinct key the varint of the key's length and its bytes, and per
  occurrence the varint of the key's index. Table mode is chosen exactly when the
  difference is positive, and never when more than half of the distinct keys occur once.
  The size of the table header is a parameter. The occurrences are those counted by
  \<open>countKeys\<close>, in first-encounter order, which is the order of the table.
\<close>

definition byteLength :: "string \<Rightarrow> nat" where
  "byteLength key = length (textEncoder_encode key)"

definition varintSize :: "nat \<Rightarrow> nat" where
  "varintSize n = length (writeVarint [] n)"

definition spec_noTableCost :: "(string \<times> nat) list \<Rightarrow> nat" where
  "spec_noTableCost keyUsage = (\<Sum>(key, occurrences) \<leftarrow> keyUsage. occurrences * (1 + byteLength key))"

definition spec_tableCost :: "nat \<Rightarrow> (string \<times> nat) list \<Rightarrow> nat" where
  "spec_tableCost header keyUsage =
     header
     + (\<Sum>(key, occurrences) \<leftarrow> keyUsage. varintSize (byteLength key) + byteLength key)
     + (\<Sum>(index, key, occurrences) \<leftarrow> zip [0 ..< length keyUsage] keyUsage.
          occurrences * varintSize index)"

definition spec_projectedSavings :: "nat \<Rightarrow> jsval \<Rightarrow> int" where
  "spec_projectedSavings header v =
     int (spec_noTableCost (countKeys v [])) - int (spec_tableCost header (countKeys v []))"

definition spec_stringTableChosen :: "nat \<Rightarrow> jsval \<Rightarrow> bool" where
  "spec_stringTableChosen header v =
     (let keyUsage = countKeys v [];
          singleUse = length (filter (\<lambda>(key, occurrences). occurrences = 1) keyUsage)
      in 2 * singleUse \<le> length keyUsage \<and> 0 < spec_projectedSavings header v)"

section \<open>Varint and zigzag: properties\<close>

lemma and_7F_mod: "(n::nat) AND 0x7F = n mod 128"
proof -
  have "(0x7F::nat) = mask 7" by (simp add: mask_eq_exp_minus_1)
  then show ?thesis by (simp only: flip: take_bit_eq_mask) (simp add: take_bit_eq_mod)
qed

lemma or_push_bit_add:
  fixes a :: nat
  assumes "a < 2 ^ k"
  shows "a OR push_bit k b = a + b * 2 ^ k"
proof -
  from assms have a: "take_bit k a = a" by (simp add: take_bit_nat_eq_self)
  have "take_bit k a + push_bit k b = take_bit k a OR push_bit k b"
    by (rule disjunctive_add) (auto simp: bit_simps)
  with a show ?thesis by (simp add: push_bit_eq_mult)
qed

lemma or_80_add: "(n::nat) mod 128 OR 0x80 = n mod 128 + 128"
  using or_push_bit_add [of "n mod 128" 7 1] by simp

lemma and_80_zero: "x < 256 \<Longrightarrow> ((x::nat) AND 0x80 = 0) = (x < 128)"
proof -
  assume x: "x < 256"
  have "(x AND 2 ^ 7 = 0) = (\<not> bit x 7)" by (rule and_exp_eq_0_iff_not_bit)
  moreover have "x div 128 = (if x < 128 then 0 else 1)" using x by auto
  then have "bit x 7 = (128 \<le> x)" by (auto simp: bit_iff_odd)
  ultimately show ?thesis by auto
qed

lemma and_1_zero: "((n::nat) AND 1 = 0) = even n"
  by (auto simp: and_one_eq mod_2_eq_odd)

lemma encodeVarint_loop_acc: "encodeVarint_loop n out = out @ encodeVarint_loop n []"
proof (induction n arbitrary: out rule: less_induct)
  case (less n)
  show ?case
  proof (cases "n div 128 = 0")
    case True
    then show ?thesis by (simp add: encodeVarint_loop.simps [of n] Let_def drop_bit_eq_div)
  next
    case False
    then have lt: "n div 128 < n" by (simp add: div_less_dividend)
    let ?b = "of_nat (n AND 0x7F OR 0x80) :: byte"
    have "encodeVarint_loop n out = encodeVarint_loop (n div 128) (out @ [?b])"
      using False by (simp add: encodeVarint_loop.simps [of n out] Let_def drop_bit_eq_div)
    also have "\<dots> = (out @ [?b]) @ encodeVarint_loop (n div 128) []"
      by (rule less.IH [OF lt])
    also have "\<dots> = out @ ([?b] @ encodeVarint_loop (n div 128) [])" by simp
    also have "[?b] @ encodeVarint_loop (n div 128) [] = encodeVarint_loop (n div 128) [?b]"
      by (rule less.IH [OF lt, symmetric])
    also have "\<dots> = encodeVarint_loop n []"
      using False by (simp add: encodeVarint_loop.simps [of n "[]"] Let_def drop_bit_eq_div)
    finally show ?thesis .
  qed
qed

lemma encodeVarint_loop_unfold:
  "encodeVarint_loop n [] =
     (if n div 128 = 0 then [of_nat (n mod 128)]
      else of_nat (n mod 128 + 128) # encodeVarint_loop (n div 128) [])"
proof (cases "n div 128 = 0")
  case True
  then show ?thesis
    by (simp add: encodeVarint_loop.simps [of n] Let_def drop_bit_eq_div and_7F_mod)
next
  case False
  then have "encodeVarint_loop n [] = encodeVarint_loop (n div 128) [of_nat (n mod 128 + 128)]"
    by (simp add: encodeVarint_loop.simps [of n "[]"] Let_def drop_bit_eq_div and_7F_mod or_80_add)
  then show ?thesis using False encodeVarint_loop_acc [of "n div 128" "[of_nat (n mod 128 + 128)]"]
    by simp
qed

lemma readVarint2_loop_encode:
  "n < 2 ^ (7 * (10 - j)) \<Longrightarrow> j \<le> 9 \<Longrightarrow> result < 2 ^ (7 * j) \<Longrightarrow>
   readVarint2_loop (pre @ encodeVarint_loop n [] @ post) (length pre) result (7 * j)
     = Inr (nearestDouble (result + n * 2 ^ (7 * j)),
            length pre + length (encodeVarint_loop n []))"
proof (induction n arbitrary: j result pre rule: less_induct)
  case (less n)
  let ?data = "pre @ encodeVarint_loop n [] @ post"
  show ?case
  proof (cases "n div 128 = 0")
    case True
    then have n: "n < 128" by (simp add: div_eq_0_iff)
    have enc: "encodeVarint_loop n [] = [of_nat n]"
      using True n by (simp add: encodeVarint_loop_unfold [of n])
    have b: "unat (of_nat n :: byte) = n" using n by (simp add: unat_of_nat)
    show ?thesis using n less.prems
      by (simp add: enc readVarint2_loop.simps [of _ "length pre"] b Let_def and_80_zero
          and_7F_mod or_push_bit_add)
  next
    case False
    then have lt: "n div 128 < n" by (simp add: div_less_dividend)
    define b :: byte where "b = of_nat (n mod 128 + 128)"
    have enc: "encodeVarint_loop n [] = b # encodeVarint_loop (n div 128) []"
      using False unfolding b_def by (simp add: encodeVarint_loop_unfold [of n])
    have "n mod 128 + 128 < 2 ^ LENGTH(8)" by simp
    then have b: "unat b = n mod 128 + 128" unfolding b_def by (simp only: unat_of_nat mod_less)
    have j8: "j \<le> 8"
    proof (rule ccontr)
      assume "\<not> j \<le> 8"
      with less.prems have "j = 9" by simp
      with less.prems have "n < 128" by simp
      with False show False by (simp add: div_eq_0_iff)
    qed
    have n': "n div 128 < 2 ^ (7 * (10 - Suc j))"
    proof -
      have e: "7 * (10 - j) = 7 + 7 * (10 - Suc j)" using j8 by simp
      have "(2::nat) ^ (7 * (10 - j)) = 2 ^ 7 * 2 ^ (7 * (10 - Suc j))"
        by (simp only: e power_add)
      then have "(2::nat) ^ (7 * (10 - j)) = 2 ^ (7 * (10 - Suc j)) * 128" by simp
      with less.prems(1) show ?thesis by (simp only: less_mult_imp_div_less)
    qed
    have r': "result + n mod 128 * 2 ^ (7 * j) < 2 ^ (7 * Suc j)"
    proof -
      have "result + n mod 128 * 2 ^ (7 * j) < 2 ^ (7 * j) + 127 * 2 ^ (7 * j)"
        using less.prems(3) by (intro add_less_le_mono mult_right_mono) simp_all
      also have "\<dots> = 2 ^ (7 * Suc j)" by (simp add: power_add)
      finally show ?thesis .
    qed
    have data: "?data = (pre @ [b]) @ encodeVarint_loop (n div 128) [] @ post"
      by (simp add: enc)
    have step: "readVarint2_loop ?data (length pre) result (7 * j) =
        readVarint2_loop ?data (length (pre @ [b])) (result + n mod 128 * 2 ^ (7 * j)) (7 * j + 7)"
      using j8 less.prems(3)
      by (simp add: readVarint2_loop.simps [of _ "length pre"] enc b Let_def and_80_zero
          and_7F_mod or_push_bit_add)
    also have "7 * j + 7 = 7 * Suc j" by simp
    also have "readVarint2_loop ?data (length (pre @ [b])) (result + n mod 128 * 2 ^ (7 * j)) (7 * Suc j)
      = Inr (nearestDouble (result + n mod 128 * 2 ^ (7 * j) + (n div 128) * 2 ^ (7 * Suc j)),
        length (pre @ [b]) + length (encodeVarint_loop (n div 128) []))"
      unfolding data using j8 by (intro less.IH [OF lt n' _ r']) simp
    also have "result + n mod 128 * 2 ^ (7 * j) + (n div 128) * 2 ^ (7 * Suc j)
        = result + n * 2 ^ (7 * j)"
    proof -
      define P where "P = (2::nat) ^ (7 * j)"
      have p: "(2::nat) ^ (7 * Suc j) = 128 * P" by (simp add: P_def power_add)
      have "n mod 128 * P + (n div 128) * (128 * P) = (n mod 128 + n div 128 * 128) * P"
        by (simp only: distrib_right mult.assoc)
      also have "n mod 128 + n div 128 * 128 = n" by simp
      finally have "n mod 128 * P + (n div 128) * (128 * P) = n * P" .
      then show ?thesis by (simp only: p P_def [symmetric] add.assoc)
    qed
    finally show ?thesis by (simp add: enc)
  qed
qed


lemma nearestDouble_exact: "a \<le> 2 ^ 53 \<Longrightarrow> nearestDouble a = a"
  by (simp add: nearestDouble_def)

lemma toNumber_exact:
  assumes "- (2 ^ 53) \<le> v" and "v \<le> 2 ^ 53"
  shows "toNumber v = v"
proof (cases "0 \<le> v")
  case True
  with assms have "nat v \<le> 2 ^ 53" by simp
  then show ?thesis using True by (simp add: toNumber_def nearestDouble_exact)
next
  case False
  with assms have "nat (- v) \<le> 2 ^ 53" by simp
  then show ?thesis using False by (simp add: toNumber_def nearestDouble_exact)
qed

lemma readVarint2_encodeVarint:
  assumes "n \<le> 2 ^ 53"
  shows "readVarint2 (pre @ encodeVarint_loop n [] @ post) (length pre)
           = Inr (n, length pre + length (encodeVarint_loop n []))"
proof -
  have "(2::nat) ^ 53 < 2 ^ 70" by simp
  with assms have "n < 2 ^ 70" by (rule le_less_trans)
  then have "n < 2 ^ (7 * (10 - 0))" by simp
  then have "readVarint2_loop (pre @ encodeVarint_loop n [] @ post) (length pre) 0 (7 * 0)
     = Inr (nearestDouble (0 + n * 2 ^ (7 * 0)), length pre + length (encodeVarint_loop n []))"
    by (rule readVarint2_loop_encode) simp_all
  then show ?thesis using assms by (simp add: readVarint2_def nearestDouble_exact)
qed

lemma zigzag_exact:
  assumes "- (2 ^ 52) \<le> n" and "n \<le> 2 ^ 52"
  shows "zigzag n = (if n \<ge> 0 then 2 * n else - 2 * n - 1)"
proof (cases "0 \<le> n")
  case True
  with assms have "toNumber (n * 2) = n * 2" by (intro toNumber_exact) simp_all
  then show ?thesis using True by (simp add: zigzag_def)
next
  case False
  with assms have "toNumber (- n * 2) = - n * 2" by (intro toNumber_exact) simp_all
  moreover from False assms have "toNumber (- n * 2 - 1) = - n * 2 - 1"
    by (intro toNumber_exact) simp_all
  ultimately show ?thesis using False by (simp add: zigzag_def)
qed

lemma unzigzag_formula:
  "unzigzag z = (if even z then int z div 2 else - ((int z + 1) div 2))"
  by (auto simp: unzigzag_def Let_def and_1_zero zdiv_int elim!: oddE)

lemma unzigzag_zigzag:
  assumes "- (2 ^ 52) \<le> n" and "n \<le> 2 ^ 52"
  shows "unzigzag (nat (zigzag n)) = n"
proof (cases "0 \<le> n")
  case True
  then have "nat (zigzag n) = 2 * nat n" by (simp add: zigzag_exact [OF assms] nat_mult_distrib)
  then show ?thesis using True by (simp add: unzigzag_formula)
next
  case False
  then have "nat (zigzag n) = 2 * nat (- n - 1) + 1" by (simp add: zigzag_exact [OF assms])
  then show ?thesis using False by (simp add: unzigzag_formula)
qed

text \<open>
  C8. The zigzag mapping is \<open>2n\<close> for \<open>n \<ge> 0\<close> and \<open>-2n - 1\<close> for \<open>n < 0\<close>; it sends 0, -1, 1,
  -2, 127, -128 to 0, 1, 2, 3, 254, 255; the decoder computes \<open>z / 2\<close> for even \<open>z\<close> and
  \<open>-(z + 1) / 2\<close> for odd \<open>z\<close> and inverts the mapping; and for every integer that the
  encoder writes as a zigzag varint (magnitude at most \<open>2^52\<close>), reading the bytes of
  \<open>encodeZigzagVarint\<close> with \<open>readZigzag\<close> gives the integer back and stops behind them.
\<close>

theorem zigzag_roundtrip:
  assumes "- (2 ^ 52) \<le> n" and "n \<le> 2 ^ 52"
  shows "zigzag n = (if n \<ge> 0 then 2 * n else - 2 * n - 1)
    \<and> zigzag 0 = 0 \<and> zigzag (- 1) = 1 \<and> zigzag 1 = 2 \<and> zigzag (- 2) = 3
    \<and> zigzag 127 = 254 \<and> zigzag (- 128) = 255
    \<and> unzigzag z = (if even z then int z div 2 else - ((int z + 1) div 2))
    \<and> unzigzag (nat (zigzag n)) = n
    \<and> (\<exists>bytes. encodeZigzagVarint n out = Inr (out @ bytes)
          \<and> readZigzag (out @ bytes @ rest) (length out) = Inr (n, length out + length bytes))"
proof -
  note exact = zigzag_exact [OF assms]
  have z0: "0 \<le> zigzag n" by (simp add: exact)
  have "zigzag n \<le> 2 ^ 53" using assms by (simp add: exact)
  then have lt: "nat (zigzag n) \<le> 2 ^ 53" by simp
  let ?bytes = "encodeVarint_loop (nat (zigzag n)) []"
  have enc: "encodeZigzagVarint n out = Inr (out @ ?bytes)"
    using z0 encodeVarint_loop_acc [of "nat (zigzag n)" out]
    by (simp add: encodeZigzagVarint_def encodeVarint_def)
  have "readZigzag (out @ ?bytes @ rest) (length out) = Inr (n, length out + length ?bytes)"
    by (simp add: readZigzag_def readVarint2_encodeVarint [OF lt] unzigzag_zigzag [OF assms])
  with enc have "\<exists>bytes. encodeZigzagVarint n out = Inr (out @ bytes)
      \<and> readZigzag (out @ bytes @ rest) (length out) = Inr (n, length out + length bytes)"
    by blast
  moreover have "zigzag n = (if n \<ge> 0 then 2 * n else - 2 * n - 1)"
    by (rule exact)
  moreover have "zigzag 0 = 0 \<and> zigzag (- 1) = 1 \<and> zigzag 1 = 2 \<and> zigzag (- 2) = 3
      \<and> zigzag 127 = 254 \<and> zigzag (- 128) = 255"
    by (simp add: zigzag_def toNumber_def nearestDouble_def)
  ultimately show ?thesis using unzigzag_formula [of z] unzigzag_zigzag [OF assms] by simp
qed

theorem zigzag_roundtrip_witness:
  "- (2 ^ 52) \<le> (- 128 :: int) \<and> (- 128 :: int) \<le> 2 ^ 52
   \<and> zigzag (- 128) = 255
   \<and> unzigzag 255 = - 128
   \<and> encodeZigzagVarint (- 128) [] = Inr [0xFF, 0x01]
   \<and> readZigzag [0xFF, 0x01] 0 = Inr (- 128, 2)"
proof -
  have h1: "- (2 ^ 52) \<le> (- 128 :: int)" by simp
  have h2: "(- 128 :: int) \<le> 2 ^ 52" by simp
  have enc: "encodeZigzagVarint (- 128) [] = Inr [0xFF, 0x01]"
    by (simp add: encodeZigzagVarint_def zigzag_def toNumber_def nearestDouble_def
        encodeVarint_def encodeVarint_loop.simps Let_def)
  from zigzag_roundtrip [OF h1 h2, of 255 "[]" "[]"] enc show ?thesis by auto
qed

text \<open>
  C7. The varints of 0, 127, 128, 16383 and 16384 take 1, 1, 2, 2 and 3 bytes, both as
  \<open>writeVarint\<close> of the fixed-width scheme appends them to a buffer and as \<open>encodeVarint\<close>
  of the simplified scheme pushes them onto its output.
\<close>

theorem varint_boundary_lengths:
  "writeVarint buf 0 = buf @ [0x00] \<and> length (writeVarint buf 0) = length buf + 1
   \<and> writeVarint buf 127 = buf @ [0x7F] \<and> length (writeVarint buf 127) = length buf + 1
   \<and> writeVarint buf 128 = buf @ [0x80, 0x01] \<and> length (writeVarint buf 128) = length buf + 2
   \<and> writeVarint buf 16383 = buf @ [0xFF, 0x7F] \<and> length (writeVarint buf 16383) = length buf + 2
   \<and> writeVarint buf 16384 = buf @ [0x80, 0x80, 0x01]
   \<and> length (writeVarint buf 16384) = length buf + 3
   \<and> encodeVarint 0 out = Inr (out @ [0x00])
   \<and> encodeVarint 127 out = Inr (out @ [0x7F])
   \<and> encodeVarint 128 out = Inr (out @ [0x80, 0x01])
   \<and> encodeVarint 16383 out = Inr (out @ [0xFF, 0x7F])
   \<and> encodeVarint 16384 out = Inr (out @ [0x80, 0x80, 0x01])"
  by (simp add: writeVarint_def encodeVarint_def encodeVarint_loop.simps Let_def)

text \<open>
  C5. The varint of \<open>2^32\<close> is \<open>80 80 80 80 10\<close>. The reader of the fixed-width scheme
  returns 0 for these bytes: the fifth group is shifted by 28 in 32-bit arithmetic and
  its one bit falls off. The reader of the simplified scheme returns \<open>2^32\<close>.
\<close>

theorem readVarint_wraps_at_32_bits:
  "encodeVarint 4294967296 [] = Inr [0x80, 0x80, 0x80, 0x80, 0x10]
   \<and> readVarint (createBinaryReader [0x80, 0x80, 0x80, 0x80, 0x10])
       = Inr (0, \<lparr>buffer = [0x80, 0x80, 0x80, 0x80, 0x10], offset = 5\<rparr>)
   \<and> readVarint2 [0x80, 0x80, 0x80, 0x80, 0x10] 0 = Inr (4294967296, 5)"
  by (simp add: encodeVarint_def encodeVarint_loop.simps readVarint_def readVarint_loop.simps
      readVarint2_def readVarint2_loop.simps nearestDouble_def createBinaryReader_def
      readUint8_def Let_def)

section \<open>Evaluation of the codec on concrete inputs\<close>

lemmas encode_eval =
  encode_def encodeValue_def resolveEncodeOptions_def stringTableChosen_def
  estimateRepetitionSavings_def writeStringTable_def keyMap_of_def writeKeyIndex_def
  writeVarint_def writeCount_def writeTag_def writeNull_def writeBoolean_def writeString_def
  writeKeyString_def writeHeader_def set_add_def js_length_def textEncoder_encode_def
  bytes16_def bytes32_def bytes64_def Let_def
  object_set_def ownKey_before_def arrayIndex_def digits_value_def
  writeArray.simps writeObject.simps writeArrayK.simps writeObjectWithKeyMap.simps

lemmas reader_eval =
  createBinaryReader_def readUint8_def readInt8_def readUint16_def readInt16_def
  readUint32_def readInt32_def readFloat32_def readFloat64_def readBytes_def readBigInt64_def
  view_bytes_def be_value_def to_signed_def readVarint_def readVarint_loop.simps

lemmas decode_eval =
  decode_def decodeValue_def resolveDecodeOptions_def decode_fuel_def
  readValue.simps readArray.simps readArray_loop.simps readObject.simps readObject_loop.simps
  readValueWithKeyTable.simps readArrayWithKeyTable.simps readArrayWithKeyTable_loop.simps
  readObjectWithKeyTable.simps readObjectWithKeyTable_loop.simps
  readPrimitive_def isArrayTag_def isObjectTag_def readCount_def readString_def
  readKeyString_def readStringTable_def readKeys_loop.simps keyTable_get_def
  textDecoder_decode_def char_of_def bit_Suc_0_iff
  object_set_def ownKey_before_def arrayIndex_def digits_value_def

lemmas stream_eval =
  decodeStreamSync_def readHeaderEvents_def getArrayLength_def getObjectKeyCount_def
  streamKey_def streamValue.simps streamArray_loop.simps streamObject_loop.simps

lemma COMMON_KEYS_MAP_get_None: "COMMON_KEYS_MAP_get k = None \<longleftrightarrow> k \<notin> set COMMON_KEYS"
  by (simp add: COMMON_KEYS_MAP_get_def map_of_eq_None_iff flip: set_map)

lemma COMMON_KEYS_short: "\<forall>k \<in> set COMMON_KEYS. length k \<le> 11"
  by (simp add: COMMON_KEYS_def)

lemma long_key_not_common: "11 < length k \<Longrightarrow> COMMON_KEYS_MAP_get k = None"
  using COMMON_KEYS_short by (fastforce simp: COMMON_KEYS_MAP_get_None)

lemma long_key_not_proto: "11 < length k \<Longrightarrow> k \<noteq> ''__proto__''"
  by auto

lemma key_ab_not_common: "COMMON_KEYS_MAP_get ''ab'' = None"
  by (simp add: COMMON_KEYS_MAP_get_None COMMON_KEYS_def)

lemma key_a_not_common: "COMMON_KEYS_MAP_get ''a'' = None"
  by (simp add: COMMON_KEYS_MAP_get_None COMMON_KEYS_def)

section \<open>The tags of numbers\<close>

text \<open>
  C9. \<open>writeNumber\<close> never writes the tag \<open>UINT8\<close> (0x14) or \<open>UINT16\<close> (0x15), whatever the
  number. For an integer the tag it writes is determined by the signed ranges first:
  \<open>INT8\<close> from -128 to 127, \<open>INT16\<close> for the rest of -32768 to 32767 (so every integer from 0
  to 65535 that is not an \<open>INT8\<close> or \<open>INT16\<close> is an \<open>INT32\<close>), \<open>INT32\<close> for the rest of the
  32-bit signed range, \<open>UINT32\<close> exactly for the integers above 2147483647 up to
  4294967295, and \<open>INT64\<close> for all others. The tag is the byte written right behind the
  buffer's previous contents.
\<close>

theorem writeNumber_never_uint8_uint16:
  "writeNumber buf v ! length buf \<noteq> of_nat TYPE_TAG_UINT8
   \<and> writeNumber buf v ! length buf \<noteq> of_nat TYPE_TAG_UINT16
   \<and> (writeNumber buf (NInt i) ! length buf = of_nat TYPE_TAG_INT8) = (- 128 \<le> i \<and> i \<le> 127)
   \<and> (writeNumber buf (NInt i) ! length buf = of_nat TYPE_TAG_INT16)
       = (- 32768 \<le> i \<and> i < - 128 \<or> 127 < i \<and> i \<le> 32767)
   \<and> (writeNumber buf (NInt i) ! length buf = of_nat TYPE_TAG_INT32)
       = (- 2147483648 \<le> i \<and> i < - 32768 \<or> 32767 < i \<and> i \<le> 2147483647)
   \<and> (writeNumber buf (NInt i) ! length buf = of_nat TYPE_TAG_UINT32)
       = (2147483647 < i \<and> i \<le> 4294967295)
   \<and> (writeNumber buf (NInt i) ! length buf = of_nat TYPE_TAG_INT64)
       = (i < - 2147483648 \<or> 4294967295 < i)"
proof -
  have tags: "writeNumber buf v ! length buf \<noteq> of_nat TYPE_TAG_UINT8
      \<and> writeNumber buf v ! length buf \<noteq> of_nat TYPE_TAG_UINT16"
    by (cases v) (simp_all add: writeTag_def nth_append)
  have ints: "(writeNumber buf (NInt i) ! length buf = of_nat TYPE_TAG_INT8) = (- 128 \<le> i \<and> i \<le> 127)
   \<and> (writeNumber buf (NInt i) ! length buf = of_nat TYPE_TAG_INT16)
       = (- 32768 \<le> i \<and> i < - 128 \<or> 127 < i \<and> i \<le> 32767)
   \<and> (writeNumber buf (NInt i) ! length buf = of_nat TYPE_TAG_INT32)
       = (- 2147483648 \<le> i \<and> i < - 32768 \<or> 32767 < i \<and> i \<le> 2147483647)
   \<and> (writeNumber buf (NInt i) ! length buf = of_nat TYPE_TAG_UINT32)
       = (2147483647 < i \<and> i \<le> 4294967295)
   \<and> (writeNumber buf (NInt i) ! length buf = of_nat TYPE_TAG_INT64)
       = (i < - 2147483648 \<or> 4294967295 < i)"
    by (simp add: writeTag_def nth_append) linarith
  from tags ints show ?thesis by blast
qed

text \<open>
  C3. The claim that the smallest of the seven integer forms is selected, with 200
  written in the \<open>UINT8\<close> form, fails at 200: \<open>writeNumber\<close> tests the three signed ranges
  before the unsigned ones, so 200 is written as \<open>INT16\<close> with a two-byte payload (three
  bytes), although the two-byte \<open>UINT8\<close> form \<open>14 C8\<close> represents it exactly, as the decoder
  shows.
\<close>

theorem writeNumber_200_is_int16:
  "writeNumber [] (NInt 200) = [of_nat TYPE_TAG_INT16, 0x00, 0xC8]
   \<and> encode (JNumber (NInt 200)) None = Inr [0x42, 0x4F, 0x4F, 0x4E, 0x01, 0x11, 0x00, 0xC8]
   \<and> decode [0x42, 0x4F, 0x4F, 0x4E, 0x01, 0x14, 0xC8] None = Inr (JNumber (NInt 200))"
  by (simp add: encode_eval reader_eval decode_eval)

section \<open>Truncated input\<close>

lemma remaining_less_iff: "remaining r < int k \<longleftrightarrow> length (buffer r) < offset r + k"
  by (auto simp: remaining_def)

text \<open>
  C6. Every typed read of the reader (\<open>uint8\<close>, \<open>int8/16/32\<close>, \<open>uint16/32\<close>, \<open>float32/64\<close>,
  the 64-bit integer, \<open>n\<close> raw bytes) fails with the buffer-underflow \<open>RangeError\<close>, the
  truncated-data error of this scheme, when fewer bytes remain than it requires, at that
  read; otherwise it succeeds and advances the cursor by that many bytes. Decoding a
  message whose string declares 10 bytes and supplies 3 raises this error.
\<close>

theorem typed_reads_underflow:
  "read_outcome kind r =
     (if remaining r < int (bytes_required kind) then Inl BufferUnderflow
      else Inr (r\<lparr>offset := offset r + bytes_required kind\<rparr>))
   \<and> decode [0x42, 0x4F, 0x4F, 0x4E, 0x01, 0x31, 0x0A, 0x61, 0x62, 0x63] None
       = Inl BufferUnderflow"
proof -
  have "read_outcome kind r =
     (if remaining r < int (bytes_required kind) then Inl BufferUnderflow
      else Inr (r\<lparr>offset := offset r + bytes_required kind\<rparr>))"
    by (cases kind)
      (auto simp: remaining_def readUint8_def readInt8_def readUint16_def readInt16_def
        readUint32_def readInt32_def readFloat32_def readFloat64_def readBigInt64_def
        readBytes_def)
  moreover have "decode [0x42, 0x4F, 0x4F, 0x4E, 0x01, 0x31, 0x0A, 0x61, 0x62, 0x63] None
       = Inl BufferUnderflow"
    by (simp add: reader_eval decode_eval)
  ultimately show ?thesis by blast
qed

theorem typed_reads_underflow_witness:
  "remaining \<lparr>buffer = [0x31, 0x0A, 0x61, 0x62, 0x63], offset = 2\<rparr> = 3
   \<and> read_outcome (ReadBytes 10) \<lparr>buffer = [0x31, 0x0A, 0x61, 0x62, 0x63], offset = 2\<rparr>
       = Inl BufferUnderflow
   \<and> read_outcome ReadUint32 \<lparr>buffer = [0x31, 0x0A, 0x61, 0x62, 0x63], offset = 2\<rparr>
       = Inl BufferUnderflow
   \<and> read_outcome ReadUint16 \<lparr>buffer = [0x31, 0x0A, 0x61, 0x62, 0x63], offset = 2\<rparr>
       = Inr \<lparr>buffer = [0x31, 0x0A, 0x61, 0x62, 0x63], offset = 4\<rparr>"
  using typed_reads_underflow [of "ReadBytes 10" "\<lparr>buffer = [0x31, 0x0A, 0x61, 0x62, 0x63], offset = 2\<rparr>"]
    typed_reads_underflow [of ReadUint32 "\<lparr>buffer = [0x31, 0x0A, 0x61, 0x62, 0x63], offset = 2\<rparr>"]
    typed_reads_underflow [of ReadUint16 "\<lparr>buffer = [0x31, 0x0A, 0x61, 0x62, 0x63], offset = 2\<rparr>"]
  by (simp add: remaining_def)

section \<open>Round trip\<close>

text \<open>
  C1. The round trip \<open>decode(encode(v)) = v\<close> with default options fails for an object
  whose key has 128 UTF-8 bytes (here 128 times the letter a, with value null).
  \<open>writeKeyString\<close> writes the marker 254 and a two-byte length for a key of 128 to 65535
  bytes; \<open>readKeyString\<close> tests for a common key (first byte 0x80 to 0xFF) before it tests
  for the markers 254 and 255, so it takes the marker for the common key number 126,
  \<open>style\<close>, and the first length byte for the value.
\<close>

theorem long_key_roundtrip_fails:
  "encode (JObject [(replicate 128 CHR ''a'', JNull)]) None
     = Inr ([0x42, 0x4F, 0x4F, 0x4E, 0x01, 0x51, 0x01, 0xFE, 0x00, 0x80] @ replicate 128 0x61 @ [0x00])
   \<and> roundtrip (JObject [(replicate 128 CHR ''a'', JNull)]) = Inr (JObject [(''style'', JNull)])
   \<and> roundtrip (JObject [(replicate 128 CHR ''a'', JNull)])
       \<noteq> Inr (JObject [(replicate 128 CHR ''a'', JNull)])"
proof -
  have enc: "encode (JObject [(replicate 128 CHR ''a'', JNull)]) None
     = Inr ([0x42, 0x4F, 0x4F, 0x4E, 0x01, 0x51, 0x01, 0xFE, 0x00, 0x80] @ replicate 128 0x61 @ [0x00])"
    by (simp add: encode_eval long_key_not_common long_key_not_proto)
  have dec: "decode ([0x42, 0x4F, 0x4F, 0x4E, 0x01, 0x51, 0x01, 0xFE, 0x00, 0x80] @ replicate 128 0x61 @ [0x00]) None
     = Inr (JObject [(''style'', JNull)])"
    by (simp add: decode_eval reader_eval COMMON_KEYS_def)
  have rt: "roundtrip (JObject [(replicate 128 CHR ''a'', JNull)]) = Inr (JObject [(''style'', JNull)])"
    by (simp only: roundtrip_def enc dec sum.case)
  have "replicate 128 CHR ''a'' \<noteq> ''style''"
  proof
    assume "replicate 128 CHR ''a'' = ''style''"
    then have "length (replicate 128 CHR ''a'') = length ''style''" by (rule arg_cong)
    then show False by simp
  qed
  with enc rt show ?thesis by simp
qed

section \<open>Normalisation\<close>

text \<open>
  C10. The claim that \<open>encode\<close> never throws fails for a sparse array, here the array
  with an empty slot followed by 1. \<open>input.map(normalizeValue)\<close> skips the empty slot and
  leaves it empty; the \<open>for ... of\<close> loop of \<open>writeArray\<close> reads it as \<open>undefined\<close>, and
  \<open>writeValue\<close> reaches its unsupported-type branch. An explicit \<open>undefined\<close> element is
  normalised to null and encoded.
\<close>

theorem sparse_array_encode_throws:
  "normalizeValue (JArray [None, Some (JNumber (NInt 1))]) = JArray [None, Some (JNumber (NInt 1))]
   \<and> encode (JArray [None, Some (JNumber (NInt 1))]) None = Inl UnsupportedValueType
   \<and> normalizeValue (JArray [Some JUndefined, Some (JNumber (NInt 1))])
       = JArray [Some JNull, Some (JNumber (NInt 1))]
   \<and> encode (JArray [Some JUndefined, Some (JNumber (NInt 1))]) None
       = Inr [0x42, 0x4F, 0x4F, 0x4E, 0x01, 0x41, 0x02, 0x00, 0x10, 0x01]"
  by (simp add: encode_eval)

section \<open>Streaming and eager decoding\<close>

text \<open>
  C2. The claim that the streaming decoder yields the flattened tree of the eager decoder
  for every encoder output and the same options fails for a message in string-table mode
  encoded without a header, here two objects with the one key \<open>ab\<close>, decoded with the
  default options. \<open>decodeValue\<close> (behind \<open>decode\<close>) accepts the string-table tag 0x60 as first byte and
  returns the tree; \<open>readHeaderEvents\<close> of the streaming decoder has no such branch, reads
  four bytes as the magic number and raises. With the header both agree.
\<close>

theorem headerless_table_stream_fails:
  "encode (JArray [Some (JObject [(''ab'', JNull)]), Some (JObject [(''ab'', JNull)])])
      (Some \<lparr>includeHeader_opt = Some False, initialBufferSize_opt = None,
             useStringTable_opt = None\<rparr>)
     = Inr [0x60, 0x01, 0x01, 0x02, 0x61, 0x62,
            0x41, 0x02, 0x51, 0x01, 0x00, 0x00, 0x51, 0x01, 0x00, 0x00]
   \<and> decode [0x60, 0x01, 0x01, 0x02, 0x61, 0x62,
             0x41, 0x02, 0x51, 0x01, 0x00, 0x00, 0x51, 0x01, 0x00, 0x00] None
     = Inr (JArray [Some (JObject [(''ab'', JNull)]), Some (JObject [(''ab'', JNull)])])
   \<and> decodeStreamSync [0x60, 0x01, 0x01, 0x02, 0x61, 0x62,
                       0x41, 0x02, 0x51, 0x01, 0x00, 0x00, 0x51, 0x01, 0x00, 0x00] None
     = ([], Inl InvalidMagicNumber)
   \<and> flatten_message (resolveDecodeOptions None)
        (JArray [Some (JObject [(''ab'', JNull)]), Some (JObject [(''ab'', JNull)])])
     = [EHeader 1, EStartArray 2, EStartObject 1, EKey ''ab'', EPrimitive JNull, EEndObject,
        EStartObject 1, EKey ''ab'', EPrimitive JNull, EEndObject, EEndArray]
   \<and> fst (decodeStreamSync [0x42, 0x4F, 0x4F, 0x4E, 0x60, 0x01, 0x01, 0x02, 0x61, 0x62,
                            0x41, 0x02, 0x51, 0x01, 0x00, 0x00, 0x51, 0x01, 0x00, 0x00] None)
     = [EHeader 1, EStartArray 2, EStartObject 1, EKey ''ab'', EPrimitive JNull, EEndObject,
        EStartObject 1, EKey ''ab'', EPrimitive JNull, EEndObject, EEndArray]"
  by (simp add: encode_eval decode_eval reader_eval stream_eval flatten_message_def
      key_ab_not_common)

section \<open>The decision for the string table\<close>

lemmas spec_eval = spec_stringTableChosen_def spec_projectedSavings_def spec_noTableCost_def
  spec_tableCost_def byteLength_def varintSize_def textEncoder_encode_def writeVarint_def Let_def

lemma map_fst_keyUsage_count: "map fst (keyUsage_count keyUsage key) = set_add (map fst keyUsage) key"
  by (induction keyUsage key rule: keyUsage_count.induct) (auto simp: set_add_def)

lemma keys_of_countKeys:
  "map fst (countKeys v keyUsage) = collectKeys v (map fst keyUsage)"
  "map fst (countKeys_items items keyUsage) = collectKeys_items items (map fst keyUsage)"
  "map fst (countKeys_props props keyUsage) = collectKeys_props props (map fst keyUsage)"
  by (induction v keyUsage and items keyUsage and props keyUsage
      rule: countKeys_countKeys_items_countKeys_props.induct)
    (simp_all add: map_fst_keyUsage_count)

lemma collectKeys_eq: "collectKeys v [] = map fst (countKeys v [])"
  by (simp add: keys_of_countKeys)

lemma headerSize_sum:
  "foldl (\<lambda>sum k. sum + js_length k + 2) a keys = a + (\<Sum>k \<leftarrow> keys. js_length k + 2)"
  by (induction keys arbitrary: a) simp_all

lemma no_occurrences_no_cost:
  "(\<Sum>(key, count) \<leftarrow> keyUsage. count) = (0::nat) \<Longrightarrow> (\<Sum>(key, count) \<leftarrow> keyUsage. count * f key) = 0"
  by (induction keyUsage) auto

lemma average_above_two:
  "(real t / real s > 2) \<longleftrightarrow> (s \<noteq> 0 \<and> 2 * s < t)"
proof (cases "s = 0")
  case True
  then show ?thesis by simp
next
  case False
  then have "(2 < real t / real s) = (2 * real s < real t)"
    by (simp add: pos_less_divide_eq)
  also have "\<dots> = (real (2 * s) < real t)" by simp
  also have "\<dots> = (2 * s < t)" by (simp only: of_nat_less_iff)
  finally show ?thesis using False by simp
qed

lemma half_single_use: "(real a > real b * 0.5) \<longleftrightarrow> (b < 2 * a)"
proof -
  have "(real a > real b * 0.5) = (real b < real (2 * a))" by (simp add: field_simps)
  also have "\<dots> = (b < 2 * a)" by (simp only: of_nat_less_iff)
  finally show ?thesis .
qed

lemma decision_arith:
  fixes S K T N H :: nat
  shows "((if real S > real K * 0.5 then - 1000
           else if real T / real N > 2 then 1000 else - 1000) > int H)
         \<longleftrightarrow> (2 * S \<le> K \<and> N \<noteq> 0 \<and> 2 * N < T \<and> H < 1000)"
  by (auto simp: half_single_use average_above_two)

text \<open>
  The test of \<open>encodeValue\<close> unfolded. \<open>estimateRepetitionSavings\<close> returns one of the two
  constants \<open>1000\<close> and \<open>-1000\<close>, and \<open>stringTableChosen\<close> compares that constant with
  the estimated size of the header; neither the size of the table nor the size of the
  indices enters the comparison. So the outcome depends only on the share of the keys
  that occur once, on whether the average of \<open>1 + key.length\<close> over the key occurrences
  is above two, and on whether the estimated header size stays below the constant.
\<close>

lemma stringTableChosen_iff:
  "(stringTableChosen v \<longleftrightarrow>
     (let keyUsage = countKeys v [] in
        2 * length (filter (\<lambda>(key, count). count = 1) keyUsage) \<le> length keyUsage
      \<and> 2 * (\<Sum>(key, count) \<leftarrow> keyUsage. count)
          < (\<Sum>(key, count) \<leftarrow> keyUsage. count * (1 + js_length key))
      \<and> 10 + (\<Sum>(key, count) \<leftarrow> keyUsage. js_length key + 2) < 1000))
   \<and> encodeValue v options =
       (if useStringTable options \<and> stringTableChosen v
        then writeValueWithKeyMap
               (writeStringTable (if includeHeader options then map of_nat MAGIC_NUMBER else [])
                  (collectKeys v []))
               v (keyMap_of (collectKeys v []))
        else writeValue (if includeHeader options then writeHeader [] else []) v)"
proof -
  define ku where "ku = countKeys v []"
  define S where "S = length (filter (\<lambda>c. c = 1) (map snd ku))"
  define T where "T = (\<Sum>(key, count) \<leftarrow> ku. count * (1 + js_length key))"
  define N where "N = sum_list (map snd ku)"
  define H where "H = 10 + foldl (\<lambda>sum k. sum + js_length k + 2) 0 (map fst ku)"
  have single: "S = length (filter (\<lambda>(key, count). count = 1) ku)"
    unfolding S_def by (induction ku) auto
  have total: "N = (\<Sum>(key, count) \<leftarrow> ku. count)"
    unfolding N_def by (induction ku) auto
  have "foldl (\<lambda>sum k. sum + js_length k + 2) a (map fst ku)
      = a + (\<Sum>(key, count) \<leftarrow> ku. js_length key + 2)" for a
    by (induction ku arbitrary: a) auto
  then have hs: "H = 10 + (\<Sum>(key, count) \<leftarrow> ku. js_length key + 2)"
    unfolding H_def by simp
  have zero: "N = 0 \<Longrightarrow> T = 0"
    unfolding total T_def by (rule no_occurrences_no_cost)
  have "stringTableChosen v =
      ((if real S > real (length (map fst ku)) * 0.5 then - 1000
        else if real T / real N > 2 then 1000 else - 1000) > int H)"
    by (simp only: stringTableChosen_def estimateRepetitionSavings_def Let_def collectKeys_eq
        ku_def [symmetric] S_def T_def N_def H_def)
  also have "\<dots> = (2 * S \<le> length (map fst ku) \<and> N \<noteq> 0 \<and> 2 * N < T \<and> H < 1000)"
    by (rule decision_arith)
  also have "\<dots> = (2 * S \<le> length ku \<and> 2 * N < T \<and> H < 1000)"
    using zero by auto
  finally have decision: "stringTableChosen v \<longleftrightarrow>
     (let keyUsage = countKeys v [] in
        2 * length (filter (\<lambda>(key, count). count = 1) keyUsage) \<le> length keyUsage
      \<and> 2 * (\<Sum>(key, count) \<leftarrow> keyUsage. count)
          < (\<Sum>(key, count) \<leftarrow> keyUsage. count * (1 + js_length key))
      \<and> 10 + (\<Sum>(key, count) \<leftarrow> keyUsage. js_length key + 2) < 1000)"
    by (simp only: Let_def ku_def [symmetric] single [symmetric] total [symmetric] hs [symmetric]
        T_def [symmetric])
  have modes: "encodeValue v options =
       (if useStringTable options \<and> stringTableChosen v
        then writeValueWithKeyMap
               (writeStringTable (if includeHeader options then map of_nat MAGIC_NUMBER else [])
                  (collectKeys v []))
               v (keyMap_of (collectKeys v []))
        else writeValue (if includeHeader options then writeHeader [] else []) v)"
    by (simp add: encodeValue_def Let_def)
  from decision modes show ?thesis by (rule conjI)
qed

text \<open>
  C4. With string-table mode enabled, the encoder is to switch to table mode exactly when
  the projected savings, the cost of the keys without a table minus the cost of the table
  and of the indices, are positive; the comment of \<open>encodeValue\<close> says \<open>Only use string
  table if it saves space\<close>. The code does not do that. For the array of two objects with
  the one key \<open>ab\<close> it chooses the table, although the projected savings are negative
  (\<open>-2\<close>, with the three bytes of tag, version and key count as the header of the table):
  \<open>encode\<close> returns 20 bytes, and 19 bytes with the string table switched off. For the
  array of six objects with the one key \<open>a\<close> the projected savings are positive and the
  code refuses the table.
\<close>

theorem table_decision_differs:
  "stringTableChosen (JArray [Some (JObject [(''ab'', JNull)]), Some (JObject [(''ab'', JNull)])])
   \<and> spec_projectedSavings 3
        (JArray [Some (JObject [(''ab'', JNull)]), Some (JObject [(''ab'', JNull)])]) = - 2
   \<and> \<not> spec_stringTableChosen 3
        (JArray [Some (JObject [(''ab'', JNull)]), Some (JObject [(''ab'', JNull)])])
   \<and> map_sum id length
        (encode (JArray [Some (JObject [(''ab'', JNull)]), Some (JObject [(''ab'', JNull)])]) None)
       = Inr 20
   \<and> map_sum id length
        (encode (JArray [Some (JObject [(''ab'', JNull)]), Some (JObject [(''ab'', JNull)])])
           (Some \<lparr>includeHeader_opt = None, initialBufferSize_opt = None,
                  useStringTable_opt = Some False\<rparr>))
       = Inr 19
   \<and> \<not> stringTableChosen
        (JArray [Some (JObject [(''a'', JNull)]), Some (JObject [(''a'', JNull)]),
                 Some (JObject [(''a'', JNull)]), Some (JObject [(''a'', JNull)]),
                 Some (JObject [(''a'', JNull)]), Some (JObject [(''a'', JNull)])])
   \<and> spec_projectedSavings 3
        (JArray [Some (JObject [(''a'', JNull)]), Some (JObject [(''a'', JNull)]),
                 Some (JObject [(''a'', JNull)]), Some (JObject [(''a'', JNull)]),
                 Some (JObject [(''a'', JNull)]), Some (JObject [(''a'', JNull)])]) = 1
   \<and> spec_stringTableChosen 3
        (JArray [Some (JObject [(''a'', JNull)]), Some (JObject [(''a'', JNull)]),
                 Some (JObject [(''a'', JNull)]), Some (JObject [(''a'', JNull)]),
                 Some (JObject [(''a'', JNull)]), Some (JObject [(''a'', JNull)])])"
proof -
  let ?v1 = "JArray [Some (JObject [(''ab'', JNull)]), Some (JObject [(''ab'', JNull)])]"
  let ?v2 = "JArray [Some (JObject [(''a'', JNull)]), Some (JObject [(''a'', JNull)]),
                 Some (JObject [(''a'', JNull)]), Some (JObject [(''a'', JNull)]),
                 Some (JObject [(''a'', JNull)]), Some (JObject [(''a'', JNull)])]"
  have c1: "stringTableChosen ?v1"
    by (simp add: encode_eval)
  have c2: "spec_projectedSavings 3 ?v1 = - 2"
    by (simp add: spec_eval upt_rec)
  have c3: "\<not> spec_stringTableChosen 3 ?v1"
    by (simp add: spec_stringTableChosen_def c2)
  have c4: "map_sum id length (encode ?v1 None) = Inr 20"
    by (simp add: encode_eval key_ab_not_common)
  have c5: "map_sum id length
        (encode ?v1 (Some \<lparr>includeHeader_opt = None, initialBufferSize_opt = None,
                  useStringTable_opt = Some False\<rparr>)) = Inr 19"
    by (simp add: encode_eval key_ab_not_common)
  have c6: "\<not> stringTableChosen ?v2"
    by (simp add: encode_eval)
  have c7: "spec_projectedSavings 3 ?v2 = 1"
    by (simp add: spec_eval upt_rec)
  have c8: "spec_stringTableChosen 3 ?v2"
    by (simp add: spec_stringTableChosen_def c7)
  show ?thesis
    by (intro conjI) (rule c1, rule c2, rule c3, rule c4, rule c5, rule c6, rule c7, rule c8)
qed

section \<open>Normalisation of inputs without sparse arrays\<close>

lemma isJsonObject_property_set:
  "isJsonObject result \<Longrightarrow> isJsonValue v \<Longrightarrow> isJsonObject (property_set result key v)"
  by (induction result key v rule: property_set.induct) auto

lemma isJsonObject_object_set:
  "isJsonObject result \<Longrightarrow> isJsonValue v \<Longrightarrow> isJsonObject (object_set result key v)"
  by (simp add: object_set_def isJsonObject_property_set)

lemma normalizeValue_isJsonValue:
  "isDense v \<Longrightarrow> isJsonValue (normalizeValue v)"
  "isDense_items items \<Longrightarrow> isJsonArray (normalizeValue_items items)"
  "isDense_props entries \<Longrightarrow> isJsonObject result \<Longrightarrow>
     isJsonObject (normalizeValue_entries entries result)"
  by (induction v and items and entries result
      rule: normalizeValue_normalizeValue_items_normalizeValue_entries.induct)
    (auto simp: isJsonObject_object_set)

lemma writeValue_succeeds:
  "isJsonValue v \<Longrightarrow> \<exists>out. writeValue buf v = Inr out"
  "isJsonArray items \<Longrightarrow> \<exists>out. writeArray buf items = Inr out"
  "isJsonArray items \<Longrightarrow> \<exists>out. writeArray_loop buf items = Inr out"
  "isJsonObject props \<Longrightarrow> \<exists>out. writeObject buf props = Inr out"
  "isJsonObject props \<Longrightarrow> \<exists>out. writeObject_loop buf props = Inr out"
proof (induction buf v and buf items and buf items and buf props and buf props
    rule: writeValue_writeArray_writeArray_loop_writeObject_writeObject_loop.induct)
  case (11 buf v)
  then show ?case by (simp add: writeArray.simps)
next
  case (14 buf item items)
  then obtain out where "writeValue buf item = Inr out" by auto
  with 14 show ?case by simp
next
  case (15 buf v)
  then show ?case by (simp add: writeObject.simps)
next
  case (17 buf key item props)
  then obtain out where "writeValue (writeKeyString buf key) item = Inr out" by auto
  with 17 show ?case by simp
qed simp_all

lemma writeValueWithKeyMap_succeeds:
  "isJsonValue v \<Longrightarrow> \<exists>out. writeValueWithKeyMap buf v keyMap = Inr out"
  "isJsonArray items \<Longrightarrow> \<exists>out. writeArrayK buf items keyMap = Inr out"
  "isJsonArray items \<Longrightarrow> \<exists>out. writeArrayK_loop buf items keyMap = Inr out"
  "isJsonObject props \<Longrightarrow> \<exists>out. writeObjectWithKeyMap buf props keyMap = Inr out"
  "isJsonObject props \<Longrightarrow> \<exists>out. writeObjectWithKeyMap_loop buf props keyMap = Inr out"
proof (induction buf v keyMap and buf items keyMap and buf items keyMap and buf props keyMap
    and buf props keyMap
    rule: writeValueWithKeyMap_writeArrayK_writeArrayK_loop_writeObjectWithKeyMap_writeObjectWithKeyMap_loop.induct)
  case (11 buf v keyMap)
  then show ?case by (simp add: writeArrayK.simps)
next
  case (14 buf item items keyMap)
  then obtain out where "writeValueWithKeyMap buf item keyMap = Inr out" by auto
  with 14 show ?case by simp
next
  case (15 buf v keyMap)
  then show ?case by (simp add: writeObjectWithKeyMap.simps)
next
  case (17 buf key item props keyMap)
  then obtain out where
    "writeValueWithKeyMap (writeKeyIndex buf (keyMap key)) item keyMap = Inr out" by auto
  with 17 show ?case by simp
qed simp_all

text \<open>
  For an input without sparse arrays the normalised value is a JSON value and \<open>encode\<close>
  returns bytes, with any options.
\<close>

lemma dense_input_encode_succeeds:
  assumes "isDense input"
  shows "isJsonValue (normalizeValue input) \<and> (\<exists>bytes. encode input options = Inr bytes)"
proof -
  have j: "isJsonValue (normalizeValue input)"
    using assms by (rule normalizeValue_isJsonValue)
  then show ?thesis
    using writeValue_succeeds(1) [OF j] writeValueWithKeyMap_succeeds(1) [OF j]
    by (simp add: encode_def encodeValue_def Let_def)
qed

section \<open>The recursion bound of the eager decoder\<close>

text \<open>
  A read that succeeds leaves the buffer as it is and does not move the cursor back; a
  value, a key and a length field take at least one byte.
\<close>

lemma readUint8_Inr:
  "readUint8 r = Inr (x, r') \<Longrightarrow>
     buffer r' = buffer r \<and> offset r' = offset r + 1 \<and> offset r < length (buffer r)"
  by (auto simp: readUint8_def split: if_splits)

lemma readUint16_Inr:
  "readUint16 r = Inr (x, r') \<Longrightarrow> buffer r' = buffer r \<and> offset r' = offset r + 2"
  by (auto simp: readUint16_def split: if_splits)

lemma readUint32_Inr:
  "readUint32 r = Inr (x, r') \<Longrightarrow> buffer r' = buffer r \<and> offset r' = offset r + 4"
  by (auto simp: readUint32_def split: if_splits)

lemma readBytes_Inr:
  "readBytes r n = Inr (x, r') \<Longrightarrow> buffer r' = buffer r \<and> offset r \<le> offset r'"
  by (auto simp: readBytes_def split: if_splits)

lemma readCount_Inr:
  "readCount r tag t1 t2 t3 = Inr (x, r') \<Longrightarrow>
     buffer r' = buffer r \<and> offset r < offset r' \<and> offset r < length (buffer r)"
  by (auto simp: readCount_def readUint8_def readUint16_def readUint32_def split: if_splits)

lemma readString_Inr:
  "readString r tag = Inr (x, r') \<Longrightarrow> buffer r' = buffer r \<and> offset r \<le> offset r'"
  by (auto simp: readString_def split: if_splits sum.splits
      dest!: readUint8_Inr readUint16_Inr readUint32_Inr readBytes_Inr)

lemma readPrimitive_Inr:
  "readPrimitive r tag = Some (Inr (x, r')) \<Longrightarrow> buffer r' = buffer r \<and> offset r \<le> offset r'"
  by (auto simp: readPrimitive_def readInt8_def readInt16_def readInt32_def readBigInt64_def
      readUint8_def readUint16_def readUint32_def readFloat32_def readFloat64_def
      split: if_splits sum.splits dest!: readString_Inr)

lemma readKeyString_Inr:
  "readKeyString r = Inr (x, r') \<Longrightarrow>
     buffer r' = buffer r \<and> offset r < offset r' \<and> offset r < length (buffer r)"
  by (auto simp: readKeyString_def Let_def split: if_splits sum.splits
      dest!: readUint8_Inr readUint16_Inr readUint32_Inr readBytes_Inr)


lemma readValue_progress_aux:
  "(\<forall>r v r'. readValue fuel r = Inr (v, r') \<longrightarrow>
       buffer r' = buffer r \<and> offset r < offset r' \<and> offset r < length (buffer r))
   \<and> (\<forall>r tag v r'. readArray fuel r tag = Inr (v, r') \<longrightarrow>
       buffer r' = buffer r \<and> offset r \<le> offset r')
   \<and> (\<forall>i len r items v r'. readArray_loop fuel i len r items = Inr (v, r') \<longrightarrow>
       buffer r' = buffer r \<and> offset r \<le> offset r')
   \<and> (\<forall>r tag v r'. readObject fuel r tag = Inr (v, r') \<longrightarrow>
       buffer r' = buffer r \<and> offset r \<le> offset r')
   \<and> (\<forall>i len r props v r'. readObject_loop fuel i len r props = Inr (v, r') \<longrightarrow>
       buffer r' = buffer r \<and> offset r \<le> offset r')"
proof (induction fuel)
  case 0
  show ?case
    by (simp add: readValue.simps readArray.simps readArray_loop.simps readObject.simps
        readObject_loop.simps)
next
  case (Suc f)
  note V = Suc.IH [THEN conjunct1, rule_format]
  note A = Suc.IH [THEN conjunct2, THEN conjunct1, rule_format]
  note AL = Suc.IH [THEN conjunct2, THEN conjunct2, THEN conjunct1, rule_format]
  note OB = Suc.IH [THEN conjunct2, THEN conjunct2, THEN conjunct2, THEN conjunct1, rule_format]
  note OL = Suc.IH [THEN conjunct2, THEN conjunct2, THEN conjunct2, THEN conjunct2, rule_format]
  have 1: "buffer r' = buffer r \<and> offset r < offset r' \<and> offset r < length (buffer r)"
    if "readValue (Suc f) r = Inr (v, r')" for r v r'
    using that
    by (subst (asm) readValue.simps)
      (auto split: sum.splits option.splits if_splits
        dest!: readUint8_Inr readPrimitive_Inr A OB)
  have 2: "buffer r' = buffer r \<and> offset r \<le> offset r'"
    if "readArray (Suc f) r tag = Inr (v, r')" for r tag v r'
    using that
    by (subst (asm) readArray.simps)
      (auto split: sum.splits if_splits dest!: readCount_Inr AL)
  have 3: "buffer r' = buffer r \<and> offset r \<le> offset r'"
    if "readArray_loop (Suc f) i len r items = Inr (v, r')" for i len r items v r'
    using that
    by (subst (asm) readArray_loop.simps)
      (auto split: sum.splits if_splits dest!: V AL)
  have 4: "buffer r' = buffer r \<and> offset r \<le> offset r'"
    if "readObject (Suc f) r tag = Inr (v, r')" for r tag v r'
    using that
    by (subst (asm) readObject.simps)
      (auto split: sum.splits if_splits dest!: readCount_Inr OL)
  have 5: "buffer r' = buffer r \<and> offset r \<le> offset r'"
    if "readObject_loop (Suc f) i len r props = Inr (v, r')" for i len r props v r'
    using that
    by (subst (asm) readObject_loop.simps)
      (auto split: sum.splits if_splits dest!: readKeyString_Inr V OL)
  show ?case
    apply (intro conjI allI impI)
    apply (drule 1, simp)
    apply (drule 1, simp)
    apply (drule 1, simp)
    apply (drule 2, simp)
    apply (drule 2, simp)
    apply (drule 3, simp)
    apply (drule 3, simp)
    apply (drule 4, simp)
    apply (drule 4, simp)
    apply (drule 5, simp)
    apply (drule 5, simp)
    done
qed

lemma readValue_progress:
  "readValue fuel r = Inr (v, r') \<Longrightarrow>
     buffer r' = buffer r \<and> offset r < offset r' \<and> offset r < length (buffer r)"
  using readValue_progress_aux [of fuel, THEN conjunct1, rule_format, of r v r'] by simp


lemma readUint8_fuel: "readUint8 r \<noteq> Inl OutOfFuel"
  by (simp add: readUint8_def)

lemma readCount_fuel: "readCount r tag t1 t2 t3 \<noteq> Inl OutOfFuel"
  by (simp add: readCount_def readUint8_def readUint16_def readUint32_def)

lemma readBytes_fuel: "readBytes r n \<noteq> Inl OutOfFuel"
  by (simp add: readBytes_def)

lemma readString_fuel: "readString r tag \<noteq> Inl OutOfFuel"
  by (auto simp: readString_def readUint8_def readUint16_def readUint32_def readBytes_def
      split: sum.splits if_splits)

lemma readPrimitive_fuel: "readPrimitive r tag \<noteq> Some (Inl OutOfFuel)"
  using readString_fuel [of r tag]
  by (auto simp: readPrimitive_def readInt8_def readInt16_def readInt32_def readBigInt64_def
      readUint8_def readUint16_def readUint32_def readFloat32_def readFloat64_def
      split: sum.splits if_splits)

lemma readKeyString_fuel: "readKeyString r \<noteq> Inl OutOfFuel"
  by (auto simp: readKeyString_def readUint8_def readUint16_def readUint32_def readBytes_def
      Let_def split: sum.splits if_splits)

lemma readValue_fuel_aux:
  "(\<forall>r. 3 * (length (buffer r) - offset r) + 1 \<le> fuel \<longrightarrow> readValue fuel r \<noteq> Inl OutOfFuel)
   \<and> (\<forall>r tag. 3 * (length (buffer r) - offset r) + 1 \<le> fuel \<longrightarrow>
          readArray fuel r tag \<noteq> Inl OutOfFuel)
   \<and> (\<forall>i len r items. 3 * (length (buffer r) - offset r) + 2 \<le> fuel \<longrightarrow>
          readArray_loop fuel i len r items \<noteq> Inl OutOfFuel)
   \<and> (\<forall>r tag. 3 * (length (buffer r) - offset r) + 1 \<le> fuel \<longrightarrow>
          readObject fuel r tag \<noteq> Inl OutOfFuel)
   \<and> (\<forall>i len r props. 3 * (length (buffer r) - offset r) + 2 \<le> fuel \<longrightarrow>
          readObject_loop fuel i len r props \<noteq> Inl OutOfFuel)"
proof (induction fuel)
  case 0
  show ?case by simp
next
  case (Suc f)
  note V = Suc.IH [THEN conjunct1, rule_format]
  note A = Suc.IH [THEN conjunct2, THEN conjunct1, rule_format]
  note AL = Suc.IH [THEN conjunct2, THEN conjunct2, THEN conjunct1, rule_format]
  note OB = Suc.IH [THEN conjunct2, THEN conjunct2, THEN conjunct2, THEN conjunct1, rule_format]
  note OL = Suc.IH [THEN conjunct2, THEN conjunct2, THEN conjunct2, THEN conjunct2, rule_format]
  have 1: "readValue (Suc f) r \<noteq> Inl OutOfFuel"
    if b: "3 * (length (buffer r) - offset r) + 1 \<le> Suc f" for r
  proof (cases "readUint8 r")
    case (Inl e)
    then show ?thesis using readUint8_fuel [of r] by (simp add: readValue.simps [of "Suc f"])
  next
    case (Inr p)
    obtain tag r1 where p: "p = (tag, r1)" by (cases p)
    from Inr p have u: "readUint8 r = Inr (tag, r1)" by simp
    from readUint8_Inr [OF u] b have f1: "3 * (length (buffer r1) - offset r1) + 1 \<le> f"
      by auto
    show ?thesis
    proof (cases "readPrimitive r1 tag")
      case (Some res)
      then show ?thesis using u readPrimitive_fuel [of r1 tag]
        by (simp add: readValue.simps [of "Suc f"])
    next
      case None
      then show ?thesis using u A [OF f1, of tag] OB [OF f1, of tag]
        by (simp add: readValue.simps [of "Suc f"])
    qed
  qed
  have 2: "readArray (Suc f) r tag \<noteq> Inl OutOfFuel"
    if b: "3 * (length (buffer r) - offset r) + 1 \<le> Suc f" for r tag
  proof (cases "readCount r tag TYPE_TAG_ARRAY_SHORT TYPE_TAG_ARRAY_MEDIUM TYPE_TAG_ARRAY_LONG")
    case (Inl e)
    then show ?thesis using readCount_fuel [of r tag 65 66 67]
      by (simp add: readArray.simps [of "Suc f"])
  next
    case (Inr p)
    obtain len r1 where p: "p = (len, r1)" by (cases p)
    from Inr p have u: "readCount r tag 65 66 67 = Inr (len, r1)" by simp
    from readCount_Inr [OF u] b have f1: "3 * (length (buffer r1) - offset r1) + 2 \<le> f"
      by auto
    show ?thesis using u AL [OF f1, of 0 len "[]"]
      by (simp add: readArray.simps [of "Suc f"])
  qed
  have 3: "readArray_loop (Suc f) i len r items \<noteq> Inl OutOfFuel"
    if b: "3 * (length (buffer r) - offset r) + 2 \<le> Suc f" for i len r items
  proof (cases "readValue f r")
    case (Inl e)
    from b have "3 * (length (buffer r) - offset r) + 1 \<le> f" by simp
    from V [OF this] Inl show ?thesis
      by (auto simp: readArray_loop.simps [of "Suc f"])
  next
    case (Inr p)
    obtain v r1 where p: "p = (v, r1)" by (cases p)
    from Inr p have u: "readValue f r = Inr (v, r1)" by simp
    from readValue_progress [OF u] b have f1: "3 * (length (buffer r1) - offset r1) + 2 \<le> f"
      by auto
    show ?thesis using u AL [OF f1, of "i + 1" len "items @ [Some v]"]
      by (simp add: readArray_loop.simps [of "Suc f"])
  qed
  have 4: "readObject (Suc f) r tag \<noteq> Inl OutOfFuel"
    if b: "3 * (length (buffer r) - offset r) + 1 \<le> Suc f" for r tag
  proof (cases "readCount r tag TYPE_TAG_OBJECT_SHORT TYPE_TAG_OBJECT_MEDIUM TYPE_TAG_OBJECT_LONG")
    case (Inl e)
    then show ?thesis using readCount_fuel [of r tag 81 82 83]
      by (simp add: readObject.simps [of "Suc f"])
  next
    case (Inr p)
    obtain len r1 where p: "p = (len, r1)" by (cases p)
    from Inr p have u: "readCount r tag 81 82 83 = Inr (len, r1)" by simp
    from readCount_Inr [OF u] b have f1: "3 * (length (buffer r1) - offset r1) + 2 \<le> f"
      by auto
    show ?thesis using u OL [OF f1, of 0 len "[]"]
      by (simp add: readObject.simps [of "Suc f"])
  qed
  have 5: "readObject_loop (Suc f) i len r props \<noteq> Inl OutOfFuel"
    if b: "3 * (length (buffer r) - offset r) + 2 \<le> Suc f" for i len r props
  proof (cases "readKeyString r")
    case (Inl e)
    then show ?thesis using readKeyString_fuel [of r]
      by (simp add: readObject_loop.simps [of "Suc f"])
  next
    case (Inr p)
    obtain key r1 where p: "p = (key, r1)" by (cases p)
    from Inr p have k: "readKeyString r = Inr (key, r1)" by simp
    from readKeyString_Inr [OF k] b have f1: "3 * (length (buffer r1) - offset r1) + 1 \<le> f"
      by auto
    show ?thesis
    proof (cases "readValue f r1")
      case (Inl e)
      with V [OF f1] k show ?thesis
        by (auto simp: readObject_loop.simps [of "Suc f"])
    next
      case (Inr q)
      obtain v r2 where q: "q = (v, r2)" by (cases q)
      from Inr q have u: "readValue f r1 = Inr (v, r2)" by simp
      from readValue_progress [OF u] f1 have f2: "3 * (length (buffer r2) - offset r2) + 2 \<le> f"
        by auto
      show ?thesis using k u OL [OF f2, of "i + 1" len "object_set props key v"]
        by (simp add: readObject_loop.simps [of "Suc f"])
    qed
  qed
  from 1 2 3 4 5 show ?case by simp
qed


lemma readVarint_loop_Inr:
  "readVarint_loop r w sh = Inr (x, r') \<Longrightarrow>
     buffer r' = buffer r \<and> offset r < offset r' \<and> offset r < length (buffer r)"
proof (induction r w sh rule: readVarint_loop.induct)
  case (1 r result shift)
  from "1.prems" obtain byte r1 where u: "readUint8 r = Inr (byte, r1)"
    by (subst (asm) readVarint_loop.simps) (auto split: sum.splits)
  note p = readUint8_Inr [OF u]
  show ?case
  proof (cases "byte AND 0x80 \<noteq> 0")
    case True
    with "1.prems" u have
      "readVarint_loop r1 (result OR push_bit (shift mod 32) (of_nat (byte AND 0x7F))) (shift + 7)
        = Inr (x, r')"
      by (subst (asm) readVarint_loop.simps) (simp add: Let_def)
    from "1.IH" [OF u refl refl refl True this] p show ?thesis by auto
  next
    case False
    with "1.prems" u have "r' = r1"
      by (subst (asm) readVarint_loop.simps) (simp add: Let_def)
    with p show ?thesis by auto
  qed
qed

lemma readVarint_Inr:
  "readVarint r = Inr (x, r') \<Longrightarrow>
     buffer r' = buffer r \<and> offset r < offset r' \<and> offset r < length (buffer r)"
  unfolding readVarint_def by (rule readVarint_loop_Inr)

lemma readVarint_loop_fuel: "readVarint_loop r w sh \<noteq> Inl OutOfFuel"
proof (induction r w sh rule: readVarint_loop.induct)
  case (1 r result shift)
  show ?case
  proof (cases "readUint8 r")
    case (Inl e)
    then show ?thesis using readUint8_fuel [of r] by (simp add: readVarint_loop.simps [of r])
  next
    case (Inr p)
    obtain byte r1 where p: "p = (byte, r1)" by (cases p)
    from Inr p have u: "readUint8 r = Inr (byte, r1)" by simp
    show ?thesis
    proof (cases "byte AND 0x80 \<noteq> 0")
      case True
      from "1.IH" [OF u refl refl refl True] u True show ?thesis
        by (simp add: readVarint_loop.simps [of r] Let_def)
    next
      case False
      with u show ?thesis by (simp add: readVarint_loop.simps [of r] Let_def)
    qed
  qed
qed

lemma readVarint_fuel: "readVarint r \<noteq> Inl OutOfFuel"
  unfolding readVarint_def by (rule readVarint_loop_fuel)

lemma readKeys_loop_fuel: "readKeys_loop i keyCount r keys \<noteq> Inl OutOfFuel"
proof (induction i keyCount r keys rule: readKeys_loop.induct)
  case (1 i keyCount r keys)
  show ?case
  proof (cases "int i < keyCount")
    case False
    then show ?thesis by (simp add: readKeys_loop.simps [of i])
  next
    case True
    show ?thesis
    proof (cases "readVarint r")
      case (Inl e)
      then show ?thesis using True readVarint_fuel [of r]
        by (simp add: readKeys_loop.simps [of i])
    next
      case (Inr p)
      obtain len r1 where p: "p = (len, r1)" by (cases p)
      from Inr p have u: "readVarint r = Inr (len, r1)" by simp
      show ?thesis
      proof (cases "readBytes r1 len")
        case (Inl e)
        then show ?thesis using True u readBytes_fuel [of r1 len]
          by (simp add: readKeys_loop.simps [of i])
      next
        case (Inr q)
        obtain bytes r2 where q: "q = (bytes, r2)" by (cases q)
        from Inr q have b: "readBytes r1 len = Inr (bytes, r2)" by simp
        from "1.IH" [OF True u refl b refl] True u b show ?thesis
          by (simp add: readKeys_loop.simps [of i])
      qed
    qed
  qed
qed

lemma readStringTable_fuel: "readStringTable r \<noteq> Inl OutOfFuel"
  using readUint8_fuel readVarint_fuel readKeys_loop_fuel
  by (auto simp: readStringTable_def split: sum.splits)


lemma readValueWithKeyTable_progress_aux:
  "(\<forall>r kt v r'. readValueWithKeyTable fuel r kt = Inr (v, r') \<longrightarrow>
       buffer r' = buffer r \<and> offset r < offset r' \<and> offset r < length (buffer r))
   \<and> (\<forall>r tag kt v r'. readArrayWithKeyTable fuel r tag kt = Inr (v, r') \<longrightarrow>
       buffer r' = buffer r \<and> offset r \<le> offset r')
   \<and> (\<forall>i len r kt items v r'. readArrayWithKeyTable_loop fuel i len r kt items = Inr (v, r') \<longrightarrow>
       buffer r' = buffer r \<and> offset r \<le> offset r')
   \<and> (\<forall>r tag kt v r'. readObjectWithKeyTable fuel r tag kt = Inr (v, r') \<longrightarrow>
       buffer r' = buffer r \<and> offset r \<le> offset r')
   \<and> (\<forall>i len r kt props v r'. readObjectWithKeyTable_loop fuel i len r kt props = Inr (v, r') \<longrightarrow>
       buffer r' = buffer r \<and> offset r \<le> offset r')"
proof (induction fuel)
  case 0
  show ?case
    by (simp add: readValueWithKeyTable.simps readArrayWithKeyTable.simps
        readArrayWithKeyTable_loop.simps readObjectWithKeyTable.simps
        readObjectWithKeyTable_loop.simps)
next
  case (Suc f)
  note V = Suc.IH [THEN conjunct1, rule_format]
  note A = Suc.IH [THEN conjunct2, THEN conjunct1, rule_format]
  note AL = Suc.IH [THEN conjunct2, THEN conjunct2, THEN conjunct1, rule_format]
  note OB = Suc.IH [THEN conjunct2, THEN conjunct2, THEN conjunct2, THEN conjunct1, rule_format]
  note OL = Suc.IH [THEN conjunct2, THEN conjunct2, THEN conjunct2, THEN conjunct2, rule_format]
  have 1: "buffer r' = buffer r \<and> offset r < offset r' \<and> offset r < length (buffer r)"
    if "readValueWithKeyTable (Suc f) r kt = Inr (v, r')" for r kt v r'
    using that
    by (subst (asm) readValueWithKeyTable.simps)
      (auto split: sum.splits option.splits if_splits
        dest!: readUint8_Inr readPrimitive_Inr A OB)
  have 2: "buffer r' = buffer r \<and> offset r \<le> offset r'"
    if "readArrayWithKeyTable (Suc f) r tag kt = Inr (v, r')" for r tag kt v r'
    using that
    by (subst (asm) readArrayWithKeyTable.simps)
      (auto split: sum.splits if_splits dest!: readCount_Inr AL)
  have 3: "buffer r' = buffer r \<and> offset r \<le> offset r'"
    if "readArrayWithKeyTable_loop (Suc f) i len r kt items = Inr (v, r')" for i len r kt items v r'
    using that
    by (subst (asm) readArrayWithKeyTable_loop.simps)
      (auto split: sum.splits if_splits dest!: V AL)
  have 4: "buffer r' = buffer r \<and> offset r \<le> offset r'"
    if "readObjectWithKeyTable (Suc f) r tag kt = Inr (v, r')" for r tag kt v r'
    using that
    by (subst (asm) readObjectWithKeyTable.simps)
      (auto split: sum.splits if_splits dest!: readCount_Inr OL)
  have 5: "buffer r' = buffer r \<and> offset r \<le> offset r'"
    if "readObjectWithKeyTable_loop (Suc f) i len r kt props = Inr (v, r')" for i len r kt props v r'
    using that
    by (subst (asm) readObjectWithKeyTable_loop.simps)
      (auto simp: Let_def split: sum.splits if_splits dest!: readVarint_Inr V OL)
  show ?case
    apply (intro conjI allI impI)
    apply (drule 1, simp)
    apply (drule 1, simp)
    apply (drule 1, simp)
    apply (drule 2, simp)
    apply (drule 2, simp)
    apply (drule 3, simp)
    apply (drule 3, simp)
    apply (drule 4, simp)
    apply (drule 4, simp)
    apply (drule 5, simp)
    apply (drule 5, simp)
    done
qed

lemma readValueWithKeyTable_progress:
  "readValueWithKeyTable fuel r kt = Inr (v, r') \<Longrightarrow>
     buffer r' = buffer r \<and> offset r < offset r' \<and> offset r < length (buffer r)"
  using readValueWithKeyTable_progress_aux [of fuel, THEN conjunct1, rule_format, of r kt v r']
  by simp

lemma readValueWithKeyTable_fuel_aux:
  "(\<forall>r kt. 3 * (length (buffer r) - offset r) + 1 \<le> fuel \<longrightarrow>
          readValueWithKeyTable fuel r kt \<noteq> Inl OutOfFuel)
   \<and> (\<forall>r tag kt. 3 * (length (buffer r) - offset r) + 1 \<le> fuel \<longrightarrow>
          readArrayWithKeyTable fuel r tag kt \<noteq> Inl OutOfFuel)
   \<and> (\<forall>i len r kt items. 3 * (length (buffer r) - offset r) + 2 \<le> fuel \<longrightarrow>
          readArrayWithKeyTable_loop fuel i len r kt items \<noteq> Inl OutOfFuel)
   \<and> (\<forall>r tag kt. 3 * (length (buffer r) - offset r) + 1 \<le> fuel \<longrightarrow>
          readObjectWithKeyTable fuel r tag kt \<noteq> Inl OutOfFuel)
   \<and> (\<forall>i len r kt props. 3 * (length (buffer r) - offset r) + 2 \<le> fuel \<longrightarrow>
          readObjectWithKeyTable_loop fuel i len r kt props \<noteq> Inl OutOfFuel)"
proof (induction fuel)
  case 0
  show ?case by simp
next
  case (Suc f)
  note V = Suc.IH [THEN conjunct1, rule_format]
  note A = Suc.IH [THEN conjunct2, THEN conjunct1, rule_format]
  note AL = Suc.IH [THEN conjunct2, THEN conjunct2, THEN conjunct1, rule_format]
  note OB = Suc.IH [THEN conjunct2, THEN conjunct2, THEN conjunct2, THEN conjunct1, rule_format]
  note OL = Suc.IH [THEN conjunct2, THEN conjunct2, THEN conjunct2, THEN conjunct2, rule_format]
  have 1: "readValueWithKeyTable (Suc f) r kt \<noteq> Inl OutOfFuel"
    if b: "3 * (length (buffer r) - offset r) + 1 \<le> Suc f" for r kt
  proof (cases "readUint8 r")
    case (Inl e)
    then show ?thesis using readUint8_fuel [of r]
      by (simp add: readValueWithKeyTable.simps [of "Suc f"])
  next
    case (Inr p)
    obtain tag r1 where p: "p = (tag, r1)" by (cases p)
    from Inr p have u: "readUint8 r = Inr (tag, r1)" by simp
    from readUint8_Inr [OF u] b have f1: "3 * (length (buffer r1) - offset r1) + 1 \<le> f"
      by auto
    show ?thesis
    proof (cases "readPrimitive r1 tag")
      case (Some res)
      then show ?thesis using u readPrimitive_fuel [of r1 tag]
        by (simp add: readValueWithKeyTable.simps [of "Suc f"])
    next
      case None
      then show ?thesis using u A [OF f1, of tag kt] OB [OF f1, of tag kt]
        by (simp add: readValueWithKeyTable.simps [of "Suc f"])
    qed
  qed
  have 2: "readArrayWithKeyTable (Suc f) r tag kt \<noteq> Inl OutOfFuel"
    if b: "3 * (length (buffer r) - offset r) + 1 \<le> Suc f" for r tag kt
  proof (cases "readCount r tag TYPE_TAG_ARRAY_SHORT TYPE_TAG_ARRAY_MEDIUM TYPE_TAG_ARRAY_LONG")
    case (Inl e)
    then show ?thesis using readCount_fuel [of r tag 65 66 67]
      by (simp add: readArrayWithKeyTable.simps [of "Suc f"])
  next
    case (Inr p)
    obtain len r1 where p: "p = (len, r1)" by (cases p)
    from Inr p have u: "readCount r tag 65 66 67 = Inr (len, r1)" by simp
    from readCount_Inr [OF u] b have f1: "3 * (length (buffer r1) - offset r1) + 2 \<le> f"
      by auto
    show ?thesis using u AL [OF f1, of 0 len kt "[]"]
      by (simp add: readArrayWithKeyTable.simps [of "Suc f"])
  qed
  have 3: "readArrayWithKeyTable_loop (Suc f) i len r kt items \<noteq> Inl OutOfFuel"
    if b: "3 * (length (buffer r) - offset r) + 2 \<le> Suc f" for i len r kt items
  proof (cases "readValueWithKeyTable f r kt")
    case (Inl e)
    from b have "3 * (length (buffer r) - offset r) + 1 \<le> f" by simp
    from V [OF this, of kt] Inl show ?thesis
      by (auto simp: readArrayWithKeyTable_loop.simps [of "Suc f"])
  next
    case (Inr p)
    obtain v r1 where p: "p = (v, r1)" by (cases p)
    from Inr p have u: "readValueWithKeyTable f r kt = Inr (v, r1)" by simp
    from readValueWithKeyTable_progress [OF u] b
    have f1: "3 * (length (buffer r1) - offset r1) + 2 \<le> f"
      by auto
    show ?thesis using u AL [OF f1, of "i + 1" len kt "items @ [Some v]"]
      by (simp add: readArrayWithKeyTable_loop.simps [of "Suc f"])
  qed
  have 4: "readObjectWithKeyTable (Suc f) r tag kt \<noteq> Inl OutOfFuel"
    if b: "3 * (length (buffer r) - offset r) + 1 \<le> Suc f" for r tag kt
  proof (cases "readCount r tag TYPE_TAG_OBJECT_SHORT TYPE_TAG_OBJECT_MEDIUM TYPE_TAG_OBJECT_LONG")
    case (Inl e)
    then show ?thesis using readCount_fuel [of r tag 81 82 83]
      by (simp add: readObjectWithKeyTable.simps [of "Suc f"])
  next
    case (Inr p)
    obtain len r1 where p: "p = (len, r1)" by (cases p)
    from Inr p have u: "readCount r tag 81 82 83 = Inr (len, r1)" by simp
    from readCount_Inr [OF u] b have f1: "3 * (length (buffer r1) - offset r1) + 2 \<le> f"
      by auto
    show ?thesis using u OL [OF f1, of 0 len kt "[]"]
      by (simp add: readObjectWithKeyTable.simps [of "Suc f"])
  qed
  have 5: "readObjectWithKeyTable_loop (Suc f) i len r kt props \<noteq> Inl OutOfFuel"
    if b: "3 * (length (buffer r) - offset r) + 2 \<le> Suc f" for i len r kt props
  proof (cases "readVarint r")
    case (Inl e)
    then show ?thesis using readVarint_fuel [of r]
      by (simp add: readObjectWithKeyTable_loop.simps [of "Suc f"])
  next
    case (Inr p)
    obtain keyIndex r1 where p: "p = (keyIndex, r1)" by (cases p)
    from Inr p have k: "readVarint r = Inr (keyIndex, r1)" by simp
    from readVarint_Inr [OF k] b have f1: "3 * (length (buffer r1) - offset r1) + 1 \<le> f"
      by auto
    show ?thesis
    proof (cases "readValueWithKeyTable f r1 kt")
      case (Inl e)
      with V [OF f1, of kt] k show ?thesis
        by (auto simp: readObjectWithKeyTable_loop.simps [of "Suc f"] Let_def)
    next
      case (Inr q)
      obtain v r2 where q: "q = (v, r2)" by (cases q)
      from Inr q have u: "readValueWithKeyTable f r1 kt = Inr (v, r2)" by simp
      from readValueWithKeyTable_progress [OF u] f1
      have f2: "3 * (length (buffer r2) - offset r2) + 2 \<le> f"
        by auto
      show ?thesis using k u OL [OF f2]
        by (simp add: readObjectWithKeyTable_loop.simps [of "Suc f"] Let_def)
    qed
  qed
  from 1 2 3 4 5 show ?case by simp
qed

lemma readKeys_loop_buffer:
  "readKeys_loop i keyCount r keys = Inr (ks, r') \<Longrightarrow> buffer r' = buffer r"
proof (induction i keyCount r keys rule: readKeys_loop.induct)
  case (1 i keyCount r keys)
  show ?case
  proof (cases "int i < keyCount")
    case False
    with "1.prems" show ?thesis by (simp add: readKeys_loop.simps [of i])
  next
    case True
    with "1.prems" obtain len r1 bytes r2 where u: "readVarint r = Inr (len, r1)"
      and b: "readBytes r1 len = Inr (bytes, r2)"
      and rest: "readKeys_loop (i + 1) keyCount r2 (keys @ [textDecoder_decode bytes]) = Inr (ks, r')"
      by (subst (asm) readKeys_loop.simps) (auto split: sum.splits)
    from "1.IH" [OF True u refl b refl rest] readVarint_Inr [OF u] readBytes_Inr [OF b]
    show ?thesis by simp
  qed
qed

lemma readStringTable_buffer:
  "readStringTable r = Inr (keys, r') \<Longrightarrow> buffer r' = buffer r"
  by (auto simp: readStringTable_def split: sum.splits
      dest!: readUint8_Inr readVarint_Inr readKeys_loop_buffer)

text \<open>
  The bound that \<open>decodeValue\<close> starts the recursive readers with is never reached,
  whatever the bytes and the options.
\<close>

lemma decodeValue_fuel: "decodeValue data options \<noteq> Inl OutOfFuel"
proof -
  have bound: "3 * (length (buffer r) - offset r) + 1 \<le> decode_fuel data"
    if "buffer r = data" for r
    using that by (simp add: decode_fuel_def)
  have v: "readValue (decode_fuel data) r \<noteq> Inl OutOfFuel" if "buffer r = data" for r
    using readValue_fuel_aux [of "decode_fuel data", THEN conjunct1, rule_format, OF bound [OF that]] .
  have k: "readValueWithKeyTable (decode_fuel data) r kt \<noteq> Inl OutOfFuel"
    if "buffer r = data" for r kt
    using readValueWithKeyTable_fuel_aux [of "decode_fuel data", THEN conjunct1, rule_format,
        OF bound [OF that]] .
  have m: "(map_sum id fst x = Inl OutOfFuel) = (x = Inl OutOfFuel)"
    for x :: "error + (jsval \<times> reader)"
    by (cases x) auto
  show ?thesis
    unfolding decodeValue_def Let_def m
    using readUint8_fuel readStringTable_fuel
    by (auto simp: createBinaryReader_def split: sum.splits if_splits
        dest!: readUint8_Inr readStringTable_buffer intro!: v k)
qed

section \<open>The recursion bound of the streaming decoder\<close>

lemma getArrayLength_Inr:
  "getArrayLength r tag = Inr (x, r') \<Longrightarrow> buffer r' = buffer r \<and> offset r \<le> offset r'"
  by (auto simp: getArrayLength_def split: if_splits dest!: readCount_Inr)

lemma getObjectKeyCount_Inr:
  "getObjectKeyCount r tag = Inr (x, r') \<Longrightarrow> buffer r' = buffer r \<and> offset r \<le> offset r'"
  by (auto simp: getObjectKeyCount_def split: if_splits dest!: readCount_Inr)

lemma streamKey_Inr:
  "streamKey r kt = Inr (x, r') \<Longrightarrow>
     buffer r' = buffer r \<and> offset r < offset r' \<and> offset r < length (buffer r)"
  by (auto simp: streamKey_def split: option.splits sum.splits
      dest!: readVarint_Inr readKeyString_Inr)

lemma getArrayLength_fuel: "getArrayLength r tag \<noteq> Inl OutOfFuel"
  using readCount_fuel by (simp add: getArrayLength_def)

lemma getObjectKeyCount_fuel: "getObjectKeyCount r tag \<noteq> Inl OutOfFuel"
  using readCount_fuel by (simp add: getObjectKeyCount_def)

lemma streamKey_fuel: "streamKey r kt \<noteq> Inl OutOfFuel"
  using readVarint_fuel [of r] readKeyString_fuel [of r]
  by (auto simp: streamKey_def split: option.splits sum.splits)

lemma streamValue_progress_aux:
  "(\<forall>r kt evs r'. streamValue fuel r kt = (evs, Inr r') \<longrightarrow>
       buffer r' = buffer r \<and> offset r < offset r' \<and> offset r < length (buffer r))
   \<and> (\<forall>i len r kt evs r'. streamArray_loop fuel i len r kt = (evs, Inr r') \<longrightarrow>
       buffer r' = buffer r \<and> offset r \<le> offset r')
   \<and> (\<forall>i len r kt evs r'. streamObject_loop fuel i len r kt = (evs, Inr r') \<longrightarrow>
       buffer r' = buffer r \<and> offset r \<le> offset r')"
proof (induction fuel)
  case 0
  show ?case
    by (simp add: streamValue.simps streamArray_loop.simps streamObject_loop.simps)
next
  case (Suc f)
  note V = Suc.IH [THEN conjunct1, rule_format]
  note AL = Suc.IH [THEN conjunct2, THEN conjunct1, rule_format]
  note OL = Suc.IH [THEN conjunct2, THEN conjunct2, rule_format]
  have 1: "buffer r' = buffer r \<and> offset r < offset r' \<and> offset r < length (buffer r)"
    if "streamValue (Suc f) r kt = (evs, Inr r')" for r kt evs r'
    using that
    by (subst (asm) streamValue.simps)
      (auto split: sum.splits option.splits if_splits prod.splits
        dest!: readUint8_Inr readPrimitive_Inr getArrayLength_Inr getObjectKeyCount_Inr AL OL)
  have 2: "buffer r' = buffer r \<and> offset r \<le> offset r'"
    if "streamArray_loop (Suc f) i len r kt = (evs, Inr r')" for i len r kt evs r'
    using that
    by (subst (asm) streamArray_loop.simps)
      (auto split: sum.splits if_splits prod.splits dest!: V AL)
  have 3: "buffer r' = buffer r \<and> offset r \<le> offset r'"
    if "streamObject_loop (Suc f) i len r kt = (evs, Inr r')" for i len r kt evs r'
    using that
    by (subst (asm) streamObject_loop.simps)
      (auto split: sum.splits if_splits prod.splits dest!: streamKey_Inr V OL)
  show ?case
    apply (intro conjI allI impI)
    apply (drule 1, simp)
    apply (drule 1, simp)
    apply (drule 1, simp)
    apply (drule 2, simp)
    apply (drule 2, simp)
    apply (drule 3, simp)
    apply (drule 3, simp)
    done
qed

lemma streamValue_progress:
  "streamValue fuel r kt = (evs, Inr r') \<Longrightarrow>
     buffer r' = buffer r \<and> offset r < offset r' \<and> offset r < length (buffer r)"
  using streamValue_progress_aux [of fuel, THEN conjunct1, rule_format, of r kt evs r'] by simp

lemma streamValue_fuel_aux:
  "(\<forall>r kt. 3 * (length (buffer r) - offset r) + 1 \<le> fuel \<longrightarrow>
          snd (streamValue fuel r kt) \<noteq> Inl OutOfFuel)
   \<and> (\<forall>i len r kt. 3 * (length (buffer r) - offset r) + 2 \<le> fuel \<longrightarrow>
          snd (streamArray_loop fuel i len r kt) \<noteq> Inl OutOfFuel)
   \<and> (\<forall>i len r kt. 3 * (length (buffer r) - offset r) + 2 \<le> fuel \<longrightarrow>
          snd (streamObject_loop fuel i len r kt) \<noteq> Inl OutOfFuel)"
proof (induction fuel)
  case 0
  show ?case by simp
next
  case (Suc f)
  note V = Suc.IH [THEN conjunct1, rule_format]
  note AL = Suc.IH [THEN conjunct2, THEN conjunct1, rule_format]
  note OL = Suc.IH [THEN conjunct2, THEN conjunct2, rule_format]
  have 1: "snd (streamValue (Suc f) r kt) \<noteq> Inl OutOfFuel"
    if b: "3 * (length (buffer r) - offset r) + 1 \<le> Suc f" for r kt
  proof (cases "readUint8 r")
    case (Inl e)
    then show ?thesis using readUint8_fuel [of r] by (simp add: streamValue.simps [of "Suc f"])
  next
    case (Inr p)
    obtain tag r1 where p: "p = (tag, r1)" by (cases p)
    from Inr p have u: "readUint8 r = Inr (tag, r1)" by simp
    note u1 = readUint8_Inr [OF u]
    show ?thesis
    proof (cases "readPrimitive r1 tag")
      case (Some res)
      then show ?thesis using u readPrimitive_fuel [of r1 tag]
        by (auto simp: streamValue.simps [of "Suc f"] split: sum.splits)
    next
      case None
      show ?thesis
      proof (cases "isArrayTag tag")
        case True
        show ?thesis
        proof (cases "getArrayLength r1 tag")
          case (Inl e)
          then show ?thesis using u None True getArrayLength_fuel [of r1 tag]
            by (simp add: streamValue.simps [of "Suc f"])
        next
          case (Inr q)
          obtain len r2 where q: "q = (len, r2)" by (cases q)
          from Inr q have g: "getArrayLength r1 tag = Inr (len, r2)" by simp
          from getArrayLength_Inr [OF g] u1 b
          have f2: "3 * (length (buffer r2) - offset r2) + 2 \<le> f" by auto
          from AL [OF f2, of 0 len kt] show ?thesis using u None True g
            by (auto simp: streamValue.simps [of "Suc f"] split: prod.splits sum.splits)
        qed
      next
        case False
        note notArray = False
        show ?thesis
        proof (cases "isObjectTag tag")
          case True
          show ?thesis
          proof (cases "getObjectKeyCount r1 tag")
            case (Inl e)
            then show ?thesis using u None notArray True getObjectKeyCount_fuel [of r1 tag]
              by (simp add: streamValue.simps [of "Suc f"])
          next
            case (Inr q)
            obtain len r2 where q: "q = (len, r2)" by (cases q)
            from Inr q have g: "getObjectKeyCount r1 tag = Inr (len, r2)" by simp
            from getObjectKeyCount_Inr [OF g] u1 b
            have f2: "3 * (length (buffer r2) - offset r2) + 2 \<le> f" by auto
            from OL [OF f2, of 0 len kt] show ?thesis using u None notArray True g
              by (auto simp: streamValue.simps [of "Suc f"] split: prod.splits sum.splits)
          qed
        next
          case False
          then show ?thesis using u None notArray
            by (simp add: streamValue.simps [of "Suc f"])
        qed
      qed
    qed
  qed
  have 2: "snd (streamArray_loop (Suc f) i len r kt) \<noteq> Inl OutOfFuel"
    if b: "3 * (length (buffer r) - offset r) + 2 \<le> Suc f" for i len r kt
  proof (cases "i < len")
    case False
    then show ?thesis by (simp add: streamArray_loop.simps [of "Suc f"])
  next
    case True
    from b have f1: "3 * (length (buffer r) - offset r) + 1 \<le> f" by simp
    obtain evs res where s: "streamValue f r kt = (evs, res)" by (cases "streamValue f r kt")
    show ?thesis
    proof (cases res)
      case (Inl e)
      with V [OF f1, of kt] s True show ?thesis
        by (auto simp: streamArray_loop.simps [of "Suc f"])
    next
      case (Inr r1)
      with s have s1: "streamValue f r kt = (evs, Inr r1)" by simp
      from streamValue_progress [OF s1] b
      have f2: "3 * (length (buffer r1) - offset r1) + 2 \<le> f" by auto
      from AL [OF f2, of "i + 1" len kt] s1 True show ?thesis
        by (auto simp: streamArray_loop.simps [of "Suc f"] split: prod.splits)
    qed
  qed
  have 3: "snd (streamObject_loop (Suc f) i len r kt) \<noteq> Inl OutOfFuel"
    if b: "3 * (length (buffer r) - offset r) + 2 \<le> Suc f" for i len r kt
  proof (cases "i < len")
    case False
    then show ?thesis by (simp add: streamObject_loop.simps [of "Suc f"])
  next
    case True
    show ?thesis
    proof (cases "streamKey r kt")
      case (Inl e)
      then show ?thesis using True streamKey_fuel [of r kt]
        by (simp add: streamObject_loop.simps [of "Suc f"])
    next
      case (Inr p)
      obtain key r1 where p: "p = (key, r1)" by (cases p)
      from Inr p have k: "streamKey r kt = Inr (key, r1)" by simp
      from streamKey_Inr [OF k] b have f1: "3 * (length (buffer r1) - offset r1) + 1 \<le> f"
        by auto
      obtain evs res where s: "streamValue f r1 kt = (evs, res)" by (cases "streamValue f r1 kt")
      show ?thesis
      proof (cases res)
        case (Inl e)
        with V [OF f1, of kt] s k True show ?thesis
          by (auto simp: streamObject_loop.simps [of "Suc f"])
      next
        case (Inr r2)
        with s have s1: "streamValue f r1 kt = (evs, Inr r2)" by simp
        from streamValue_progress [OF s1] f1
        have f2: "3 * (length (buffer r2) - offset r2) + 2 \<le> f" by auto
        from OL [OF f2, of "i + 1" len kt] s1 k True show ?thesis
          by (auto simp: streamObject_loop.simps [of "Suc f"] split: prod.splits)
      qed
    qed
  qed
  from 1 2 3 show ?case by simp
qed

lemma readHeaderEvents_Inr:
  "readHeaderEvents r = (evs, Inr (kt, r')) \<Longrightarrow> buffer r' = buffer r"
  by (auto simp: readHeaderEvents_def Let_def split: sum.splits if_splits
      dest!: readBytes_Inr readUint8_Inr readVarint_Inr readKeys_loop_buffer)

lemma readHeaderEvents_fuel: "snd (readHeaderEvents r) \<noteq> Inl OutOfFuel"
  using readBytes_fuel readUint8_fuel readVarint_fuel readKeys_loop_fuel
  by (auto simp: readHeaderEvents_def Let_def split: sum.splits if_splits)

text \<open>
  The streaming decoder starts with the same bound and never reaches it either.
\<close>

lemma decodeStreamSync_fuel: "snd (decodeStreamSync data options) \<noteq> Inl OutOfFuel"
proof -
  have v: "snd (streamValue (decode_fuel data) r kt) \<noteq> Inl OutOfFuel"
    if "buffer r = data" for r kt
  proof -
    from that have "3 * (length (buffer r) - offset r) + 1 \<le> decode_fuel data"
      by (simp add: decode_fuel_def)
    from streamValue_fuel_aux [of "decode_fuel data", THEN conjunct1, rule_format, OF this]
    show ?thesis .
  qed
  show ?thesis
  proof (cases "expectHeader (resolveDecodeOptions options)")
    case False
    then show ?thesis using v [of "createBinaryReader data" None]
      by (simp add: decodeStreamSync_def Let_def createBinaryReader_def)
  next
    case True
    obtain evs res where h: "readHeaderEvents (createBinaryReader data) = (evs, res)"
      by (cases "readHeaderEvents (createBinaryReader data)")
    show ?thesis
    proof (cases res)
      case (Inl e)
      with h readHeaderEvents_fuel [of "createBinaryReader data"] True show ?thesis
        by (simp add: decodeStreamSync_def Let_def)
    next
      case (Inr p)
      obtain kt r where p: "p = (kt, r)" by (cases p)
      from h Inr p have h1: "readHeaderEvents (createBinaryReader data) = (evs, Inr (kt, r))"
        by simp
      from readHeaderEvents_Inr [OF h1] have "buffer r = data"
        by (simp add: createBinaryReader_def)
      from v [OF this, of kt] h1 True show ?thesis
        by (auto simp: decodeStreamSync_def Let_def split: prod.splits)
    qed
  qed
qed

section \<open>Platform functions on examples\<close>

text \<open>
  \<open>Number(bigInt)\<close> rounds \<open>2^53 + 1\<close> down to \<open>2^53\<close> and \<open>2^53 + 3\<close> up to \<open>2^53 + 4\<close>. The
  bits of the doubles 1 and 0.5 and of the float 3 give the integer 1, the binary32 0.5
  and the integer 3; the bits of the double 0.1 stay a binary64. \<open>TextDecoder\<close> drops a
  byte order mark and replaces the byte \<open>FF\<close> by U+FFFD. An assignment to \<open>__proto__\<close>
  creates no property, and the property \<open>1\<close> comes before the property \<open>b\<close> created
  earlier.
\<close>

lemmas number_eval = number_of_float32_def number_of_float64_def number_of_ieee_def
  ieee_decode_def ieee_encode_def oddPart.simps bitLength.simps toNumber_def nearestDouble_def
  Let_def

lemma toNumber_examples:
  "toNumber 9007199254740993 = 9007199254740992"
  "toNumber 9007199254740995 = 9007199254740996"
  "toNumber (- 9007199254740993) = - 9007199254740992"
  by (simp_all add: number_eval)

lemma number_of_float_examples:
  "number_of_float64 0x3FF0000000000000 = NInt 1"
  "number_of_float64 0x3FE0000000000000 = NFloat32 0x3F000000"
  "number_of_float64 0x3FB999999999999A = NFloat64 0x3FB999999999999A"
  "number_of_float32 0x40400000 = NInt 3"
  "number_of_float32 0x3FC00000 = NFloat32 0x3FC00000"
  by (simp_all add: number_eval)

lemma textDecoder_decode_examples:
  "textDecoder_decode [0x61, 0x62] = ''ab''"
  "textDecoder_decode [0xEF, 0xBB, 0xBF, 0x61, 0xFF] = [CHR ''a'', CHR 0xEF, CHR 0xBF, CHR 0xBD]"
  by (simp_all add: textDecoder_decode_def char_of_def bit_Suc_0_iff)

lemma object_set_examples:
  "object_set (object_set (object_set [] ''b'' JNull) ''__proto__'' JNull) ''1'' (JBool True)
     = [(''1'', JBool True), (''b'', JNull)]"
  "object_set (object_set [] ''b'' JNull) ''b'' (JBool True) = [(''b'', JBool True)]"
  by (simp_all add: object_set_def ownKey_before_def arrayIndex_def digits_value_def)

end
